theory Spec2Isabelle
  imports Main "HOL-Library.Word"
begin

unbundle bit_operations_syntax

section \<open>Machine types and configuration constants of base-parallel.c\<close>

text \<open>
  \<open>DWORD\<close> and \<open>uint32_t\<close> are 32-bit unsigned, \<open>DWORD_PTR\<close> and \<open>uint64_t\<close> are
  64-bit unsigned (the program targets at most 64 logical processors), \<open>uint8_t\<close> is
  8-bit unsigned. A \<open>HANDLE\<close> is an opaque pointer-sized value; \<open>NULL\<close> is 0.
\<close>

type_synonym dword = "32 word"
type_synonym dword_ptr = "64 word"
type_synonym handle = nat

definition NULL :: handle where
  "NULL = 0"

definition WAIT_TIME :: dword where
  "WAIT_TIME = 15000"

definition SPARE_THREADS :: dword where
  "SPARE_THREADS = 0"

definition MAX_ITERATIONS :: nat where
  "MAX_ITERATIONS = 100"

text \<open>Constants of the Windows API the program compares against.\<close>

definition WAIT_OBJECT_0 :: dword where
  "WAIT_OBJECT_0 = 0"

definition WAIT_TIMEOUT :: dword where
  "WAIT_TIMEOUT = 0x102"

definition WAIT_FAILED :: dword where
  "WAIT_FAILED = 0xFFFFFFFF"

definition INFINITE :: dword where
  "INFINITE = 0xFFFFFFFF"

section \<open>popcnt64\<close>

text \<open>
  One line of \<open>popcnt64\<close>: \<open>u = (u & m) + ((u >> k) & m)\<close> on \<open>uint64_t\<close>
  (the addition wraps modulo \<open>2^64\<close>, the shift is logical).
\<close>

definition popcnt_step :: "nat \<Rightarrow> 64 word \<Rightarrow> 64 word \<Rightarrow> 64 word" where
  "popcnt_step k m u = (u AND m) + (drop_bit k u AND m)"

definition popcnt64 :: "64 word \<Rightarrow> 8 word" where
  "popcnt64 u0 =
    (let u1 = popcnt_step 1 0x5555555555555555 u0;
         u2 = popcnt_step 2 0x3333333333333333 u1;
         u3 = popcnt_step 4 0x0f0f0f0f0f0f0f0f u2;
         u4 = popcnt_step 8 0x00ff00ff00ff00ff u3;
         u5 = popcnt_step 16 0x0000ffff0000ffff u4;
         u6 = popcnt_step 32 0x00000000ffffffff u5
     in ucast u6)"


section \<open>Global state and observable actions\<close>

text \<open>
  The global thread variables of the program. A pointer is \<open>None\<close> when it is \<open>NULL\<close>
  and \<open>Some xs\<close> when it points to an allocated array with contents \<open>xs\<close>.
\<close>

record globals =
  num_threads :: dword
  thread_affinity :: "dword_ptr list option"
  data_ready :: "handle list option"
  thread_ready :: "handle list option"
  thread_data :: "dword list option"

definition initial_globals :: globals where
  "initial_globals =
     \<lparr>num_threads = 0, thread_affinity = None, data_ready = None,
      thread_ready = None, thread_data = None\<rparr>"

text \<open>
  The calls a thread makes to the C library and to the operating system, and its accesses
  to the shared work-item slots, in program order. The results of the calls are not part
  of the trace: they come from the environment records below.
\<close>

datatype array_id = A_thread_affinity | A_task_thread | A_data_ready | A_thread_ready | A_thread_data

datatype action =
    Printf string "dword list"
  | Fprintf_stderr string
  | Calloc array_id
  | Free array_id
  | CreateEvent
  | CreateThread nat
  | SetThreadPriority handle
  | SetThreadAffinityMask handle dword_ptr
  | SetEvent handle
  | WaitForSingleObject handle dword
  | WaitForMultipleObjects dword "handle list" bool dword
  | Sleep dword
  | Store_thread_data nat dword
  | Load_thread_data nat
  | Memset_thread_data
  | Memset_task_thread
  | TerminateThread handle dword
  | CloseHandle handle

text \<open>
  How a thread function ends: it returns or calls \<open>ExitThread\<close> with a status, it
  dereferences a \<open>NULL\<close> array or indexes past the end of an array (undefined behaviour
  in C), or it is still inside its loop when the recorded environment ends.
\<close>

datatype outcome = Exit dword | Null_dereference | Out_of_bounds | Running

section \<open>SetThreadAffinity\<close>

text \<open>
  The environment of \<open>SetThreadAffinity\<close>: what \<open>GetProcessAffinityMask\<close> reports
  (\<open>None\<close> when the call fails) and whether \<open>calloc\<close> succeeds.
\<close>

record affinity_env =
  process_affinity :: "dword_ptr option"
  calloc_affinity_ok :: bool

text \<open>
  The loop \<open>for (i = 0; i < num_threads; i++)\<close> with body
  \<open>thread_affinity[i] |= affinity & (-1LL * affinity); affinity ^= affinity & (-1LL * affinity);\<close>.
  The product is taken in unsigned 64-bit arithmetic.
\<close>

function spread_affinity :: "nat \<Rightarrow> nat \<Rightarrow> dword_ptr list \<Rightarrow> dword_ptr \<Rightarrow> dword_ptr list" where
  "spread_affinity i n ta affinity =
     (if i < n then
        spread_affinity (i + 1) n
          (ta[i := (ta ! i) OR (affinity AND ((- 1) * affinity))])
          (affinity XOR (affinity AND ((- 1) * affinity)))
      else ta)"
  by pat_completeness auto
termination
  by (relation "measure (\<lambda>(i, n, ta, affinity). n - i)") auto

text \<open>
  \<open>SetThreadAffinity\<close> with the macro \<open>SPARE_THREADS\<close> as a parameter. It returns the
  \<open>BOOL\<close> result, the globals after the call and what was written to \<open>stderr\<close>.
\<close>

definition SetThreadAffinity_spare ::
  "dword \<Rightarrow> affinity_env \<Rightarrow> globals \<Rightarrow> bool \<times> globals \<times> action list" where
  "SetThreadAffinity_spare spare env g0 =
     (let g1 = g0\<lparr>num_threads := 0\<rparr> in
      case process_affinity env of
        None \<Rightarrow> (False, g1, [])
      | Some affinity \<Rightarrow>
          let g2 = g1\<lparr>num_threads := ucast (popcnt64 affinity)\<rparr> in
          if num_threads g2 \<le> spare then (False, g2, [])
          else
            let g3 = g2\<lparr>num_threads := num_threads g2 - spare\<rparr>;
                n = unat (num_threads g3)
            in if \<not> calloc_affinity_ok env
               then (False, g3\<lparr>thread_affinity := None\<rparr>,
                     [Calloc A_thread_affinity,
                      Fprintf_stderr ''Could not alloc thread_affinity.\<newline>''])
               else (True,
                     g3\<lparr>thread_affinity := Some (spread_affinity 0 n (replicate n 0) affinity)\<rparr>,
                     [Calloc A_thread_affinity]))"

definition SetThreadAffinity :: "affinity_env \<Rightarrow> globals \<Rightarrow> bool \<times> globals \<times> action list" where
  "SetThreadAffinity = SetThreadAffinity_spare SPARE_THREADS"

text \<open>
  Specification side: the positions of the set bits of an affinity word in ascending
  order, and the number of usable cores.
\<close>

definition set_bit_positions :: "dword_ptr \<Rightarrow> nat list" where
  "set_bit_positions a = filter (bit a) [0..<64]"

definition usable_cores :: "dword_ptr \<Rightarrow> nat" where
  "usable_cores a = length (set_bit_positions a)"

section \<open>Array accesses\<close>

text \<open>
  Reading element \<open>i\<close> of an array through its pointer: a \<open>NULL\<close> pointer or an
  index past the end is undefined behaviour in C and is reported as such.
\<close>

definition array_read :: "'a list option \<Rightarrow> nat \<Rightarrow> outcome + 'a" where
  "array_read p i =
     (case p of
        None \<Rightarrow> Inl Null_dereference
      | Some xs \<Rightarrow> if i < length xs then Inr (xs ! i) else Inl Out_of_bounds)"

section \<open>ParallelTaskThread\<close>

text \<open>
  What the environment answers during one pass through the body of the worker's
  \<open>do ... while (1)\<close> loop: the result of \<open>SetEvent(thread_ready[i])\<close>, the result of
  \<open>WaitForSingleObject(data_ready[i], WAIT_TIME)\<close>, the value of \<open>thread_data[i]\<close> when
  the exit test reads it and when \<open>printf\<close> reads it again (the Control Loop owns the
  slot and may have written in between), and the value of \<open>cancel_requested\<close> at the
  \<open>j\<close>-th test of the dummy loop.
\<close>

record worker_round =
  ready_ok :: bool
  wait_result :: dword
  slot_at_test :: dword
  slot_at_print :: dword
  cancel_poll :: "nat \<Rightarrow> bool"

text \<open>\<open>for (uint32_t j = 0; (j < 25) && (!cancel_requested); j++) Sleep(100);\<close>\<close>

function dummy_loop :: "(nat \<Rightarrow> bool) \<Rightarrow> nat \<Rightarrow> action list" where
  "dummy_loop cancel j =
     (if j < 25 \<and> \<not> cancel j then Sleep 100 # dummy_loop cancel (j + 1) else [])"
  by pat_completeness auto
termination
  by (relation "measure (\<lambda>(cancel, j). 25 - j)") auto

text \<open>
  One pass through the loop body. The second component is \<open>Some r\<close> when the pass ends
  the thread with outcome \<open>r\<close> and \<open>None\<close> when the loop goes round again.
\<close>

definition worker_body :: "globals \<Rightarrow> dword \<Rightarrow> worker_round \<Rightarrow> action list \<times> outcome option" where
  "worker_body g i e =
     (case array_read (thread_ready g) (unat i) of
        Inl f \<Rightarrow> ([], Some f)
      | Inr tr \<Rightarrow>
          if \<not> ready_ok e
          then ([SetEvent tr,
                 Printf ''Failed to signal readiness for thread #%02d\<newline>'' [i]],
                Some (Exit 1))
          else
            (case array_read (data_ready g) (unat i) of
               Inl f \<Rightarrow> ([SetEvent tr], Some f)
             | Inr dr \<Rightarrow>
                 if wait_result e \<noteq> WAIT_OBJECT_0
                 then ([SetEvent tr, WaitForSingleObject dr WAIT_TIME,
                        Printf ''Failed to get data ready event for thread #%02d\<newline>'' [i]],
                       Some (Exit 1))
                 else
                   (case array_read (thread_data g) (unat i) of
                      Inl f \<Rightarrow> ([SetEvent tr, WaitForSingleObject dr WAIT_TIME], Some f)
                    | Inr _ \<Rightarrow>
                        if slot_at_test e = 0
                        then ([SetEvent tr, WaitForSingleObject dr WAIT_TIME,
                               Load_thread_data (unat i),
                               Printf ''Thread #%02d exiting\<newline>'' [i]],
                              Some (Exit 0))
                        else ([SetEvent tr, WaitForSingleObject dr WAIT_TIME,
                               Load_thread_data (unat i), Load_thread_data (unat i),
                               Printf ''Thread #%02d received data %d\<newline>''
                                 [i, slot_at_print e]]
                              @ dummy_loop (cancel_poll e) 0,
                              None))))"

text \<open>
  The thread function, run against the answers for its successive passes. When the
  answers run out the thread is still in its loop.
\<close>

fun ParallelTaskThread :: "globals \<Rightarrow> dword \<Rightarrow> worker_round list \<Rightarrow> action list \<times> outcome" where
  "ParallelTaskThread g i [] = ([], Running)"
| "ParallelTaskThread g i (e # es) =
     (case worker_body g i e of
        (t, Some r) \<Rightarrow> (t, r)
      | (t, None) \<Rightarrow>
          (case ParallelTaskThread g i es of (t', r) \<Rightarrow> (t @ t', r)))"

section \<open>ControlThread\<close>

text \<open>
  The environment of the Control Loop: whether each of the four \<open>calloc\<close> calls
  succeeds, the handles returned by \<open>CreateEvent\<close> and \<open>CreateThread\<close> for worker \<open>i\<close>
  (\<open>NULL\<close> on failure), and, for each dispatch iteration, the value of
  \<open>cancel_requested\<close> read by the loop test, the result of \<open>WaitForMultipleObjects\<close> on the
  ready events and the result of \<open>SetEvent\<close>; finally the result of the wait for all
  worker threads.
\<close>

record control_env =
  calloc_task_thread_ok :: bool
  calloc_data_ready_ok :: bool
  calloc_thread_ready_ok :: bool
  calloc_thread_data_ok :: bool
  new_data_ready :: "nat \<Rightarrow> handle"
  new_thread_ready :: "nat \<Rightarrow> handle"
  new_task_thread :: "nat \<Rightarrow> handle"
  cancel_at :: "nat \<Rightarrow> bool"
  ready_wait :: "nat \<Rightarrow> dword"
  signal_ok :: "nat \<Rightarrow> bool"
  join_wait :: dword

text \<open>How a part of the function hands over: it falls through, it jumps to \<open>out\<close>, or
  its behaviour is undefined.\<close>

datatype flow = Next | Goto_out | Undefined outcome

text \<open>The per-worker arrays once all four allocations have succeeded.\<close>

record arrays =
  task_thread :: "handle list"
  data_ready_a :: "handle list"
  thread_ready_a :: "handle list"
  thread_data_a :: "dword list"

text \<open>The loop that creates the events and the threads (\<open>for (uint32_t i = 0; i < num_threads; i++)\<close>).\<close>

function create_workers ::
  "control_env \<Rightarrow> dword_ptr list \<Rightarrow> nat \<Rightarrow> nat \<Rightarrow> arrays \<Rightarrow> arrays \<times> action list \<times> flow" where
  "create_workers env ta n i a =
     (if i < n then
        let a1 = a\<lparr>data_ready_a := (data_ready_a a)[i := new_data_ready env i],
                   thread_ready_a := (thread_ready_a a)[i := new_thread_ready env i]\<rparr>
        in if new_data_ready env i = NULL \<or> new_thread_ready env i = NULL
           then (a1,
                 [CreateEvent, CreateEvent,
                  Printf ''Unable to create checksum thread event\<newline>'' []],
                 Goto_out)
           else
             let a2 = a1\<lparr>task_thread := (task_thread a1)[i := new_task_thread env i]\<rparr>
             in if new_task_thread env i = NULL
                then (a2,
                      [CreateEvent, CreateEvent, CreateThread i,
                       Printf ''Unable to start thread #%02d\<newline>'' [of_nat i]],
                      Goto_out)
                else if \<not> i < length ta
                then (a2,
                      [CreateEvent, CreateEvent, CreateThread i,
                       SetThreadPriority (new_task_thread env i)],
                      Undefined Out_of_bounds)
                else
                  (case create_workers env ta n (i + 1) a2 of
                     (a3, t, f) \<Rightarrow>
                       (a3,
                        [CreateEvent, CreateEvent, CreateThread i,
                         SetThreadPriority (new_task_thread env i)]
                        @ (if ta ! i \<noteq> 0
                           then [SetThreadAffinityMask (new_task_thread env i) (ta ! i)]
                           else [])
                        @ t,
                        f))
      else (a, [], Next))"
  by pat_completeness auto
termination
  by (relation "measure (\<lambda>(env, ta, n, i, a). n - i)") auto

text \<open>
  The dispatch loop
  \<open>for (uint32_t iteration = 1; (iteration <= MAX_ITERATIONS) && !cancel_requested; iteration++)\<close>.
  \<open>nt\<close> is \<open>num_threads\<close>; the comparison \<open>i >= WAIT_OBJECT_0 + num_threads\<close> is made on
  \<open>DWORD\<close>s. It returns the work-item slots, the trace and how the loop was left.
\<close>

function dispatch_loop ::
  "control_env \<Rightarrow> dword \<Rightarrow> arrays \<Rightarrow> nat \<Rightarrow> dword list \<times> action list \<times> flow" where
  "dispatch_loop env nt a iteration =
     (if iteration \<le> MAX_ITERATIONS \<and> \<not> cancel_at env iteration then
        let i = ready_wait env iteration;
            w = WaitForMultipleObjects nt (thread_ready_a a) False WAIT_TIME
        in if i \<ge> WAIT_OBJECT_0 + nt
           then (thread_data_a a,
                 [w, Printf ''Failed to wait on individual task thread\<newline>'' []],
                 Goto_out)
           else if \<not> (unat i < length (thread_data_a a) \<and> unat i < length (data_ready_a a))
           then (thread_data_a a, [w], Undefined Out_of_bounds)
           else
             let a1 = a\<lparr>thread_data_a := (thread_data_a a)[unat i := of_nat iteration]\<rparr>;
                 round = [w, Store_thread_data (unat i) (of_nat iteration),
                          SetEvent (data_ready_a a ! unat i)]
             in if \<not> signal_ok env iteration
                then (thread_data_a a1,
                      round @ [Printf ''Could not signal thread #%02d\<newline>'' [i]],
                      Goto_out)
                else
                  (case dispatch_loop env nt a1 (iteration + 1) of
                     (td, t, f) \<Rightarrow> (td, round @ t, f))
      else (thread_data_a a, [], Next))"
  by pat_completeness auto
termination
  by (relation "measure (\<lambda>(env, nt, a, iteration). Suc MAX_ITERATIONS - iteration)") auto

text \<open>
  After the dispatch loop: the grace period, \<open>memset(thread_data, 0, ...)\<close>, one
  \<open>SetEvent(data_ready[i])\<close> per worker, and the wait for all threads to exit.
\<close>

definition shutdown_broadcast :: "dword \<Rightarrow> arrays \<Rightarrow> action list" where
  "shutdown_broadcast nt a =
     [Sleep 250, Memset_thread_data]
     @ map (\<lambda>i. SetEvent (data_ready_a a ! i)) [0..<unat nt]
     @ [WaitForMultipleObjects nt (task_thread a) True WAIT_TIME]"

text \<open>
  The loop after the label \<open>out\<close>. The three handle arrays are read through their
  pointers, which are \<open>NULL\<close> when the allocation failed.
\<close>

function cleanup_loop ::
  "nat \<Rightarrow> nat \<Rightarrow> handle list option \<Rightarrow> handle list option \<Rightarrow> handle list option
     \<Rightarrow> action list \<times> flow" where
  "cleanup_loop n i tt dr tr =
     (if i < n then
        (case array_read tt i of
           Inl f \<Rightarrow> ([], Undefined f)
         | Inr h1 \<Rightarrow>
             let t1 = (if h1 \<noteq> NULL then [TerminateThread h1 1] else []) in
             (case array_read dr i of
                Inl f \<Rightarrow> (t1, Undefined f)
              | Inr h2 \<Rightarrow>
                  let t2 = (if h2 \<noteq> NULL then [CloseHandle h2] else []) in
                  (case array_read tr i of
                     Inl f \<Rightarrow> (t1 @ t2, Undefined f)
                   | Inr h3 \<Rightarrow>
                       let t3 = (if h3 \<noteq> NULL then [CloseHandle h3] else []) in
                       (case cleanup_loop n (i + 1) tt dr tr of
                          (t, f) \<Rightarrow> (t1 @ t2 @ t3 @ t, f)))))
      else ([], Next))"
  by pat_completeness auto
termination
  by (relation "measure (\<lambda>(n, i, tt, dr, tr). n - i)") auto

text \<open>Everything from the label \<open>out\<close> to \<open>ExitThread(r)\<close>.\<close>

definition out_label ::
  "nat \<Rightarrow> handle list option \<Rightarrow> handle list option \<Rightarrow> handle list option \<Rightarrow> dword
     \<Rightarrow> action list \<times> outcome" where
  "out_label n tt dr tr r =
     (case cleanup_loop n 0 tt dr tr of
        (t, Undefined f) \<Rightarrow> (t, f)
      | (t, _) \<Rightarrow>
          (t @ [Free A_data_ready, Free A_thread_ready, Free A_task_thread, Free A_thread_data],
           Exit r))"

definition out_arrays :: "nat \<Rightarrow> arrays \<Rightarrow> dword \<Rightarrow> action list \<times> outcome" where
  "out_arrays n a r =
     out_label n (Some (task_thread a)) (Some (data_ready_a a)) (Some (thread_ready_a a)) r"

text \<open>
  \<open>ControlThread\<close>, from the creation of the workers on, with all four arrays
  allocated. It returns the trace, the contents of the work-item slots when the function
  ends, and the outcome.
\<close>

definition control_run ::
  "control_env \<Rightarrow> dword \<Rightarrow> dword_ptr list \<Rightarrow> arrays \<Rightarrow> action list \<times> dword list \<times> outcome" where
  "control_run env nt ta a0 =
     (let n = unat nt;
          p = [Printf ''Creating %d threads...\<newline>'' [nt]]
      in case create_workers env ta n 0 a0 of
           (a1, t1, Undefined f) \<Rightarrow> (p @ t1, thread_data_a a1, f)
         | (a1, t1, Goto_out) \<Rightarrow>
             (case out_arrays n a1 1 of (t, r) \<Rightarrow> (p @ t1 @ t, thread_data_a a1, r))
         | (a1, t1, Next) \<Rightarrow>
             (case dispatch_loop env nt a1 1 of
                (td, t2, Undefined f) \<Rightarrow> (p @ t1 @ t2, td, f)
              | (td, t2, Goto_out) \<Rightarrow>
                  (case out_arrays n a1 1 of (t, r) \<Rightarrow> (p @ t1 @ t2 @ t, td, r))
              | (td, t2, Next) \<Rightarrow>
                  let t3 = shutdown_broadcast nt a1;
                      td0 = replicate n 0
                  in if join_wait env = WAIT_OBJECT_0
                     then (case out_arrays n (a1\<lparr>task_thread := replicate n NULL\<rparr>) 0 of
                             (t, r) \<Rightarrow> (p @ t1 @ t2 @ t3 @ [Memset_task_thread] @ t, td0, r))
                     else (case out_arrays n a1 1 of
                             (t, r) \<Rightarrow>
                               (p @ t1 @ t2 @ t3
                                @ [Printf ''Threads did not finalize\<newline>'' []] @ t,
                                td0, r))))"

text \<open>
  The whole function. The slots are \<open>None\<close> when \<open>thread_data\<close> was never allocated.
\<close>

definition ControlThread ::
  "control_env \<Rightarrow> globals \<Rightarrow> action list \<times> dword list option \<times> outcome" where
  "ControlThread env g =
     (if num_threads g = 0 then ([], None, Exit 1)
      else case thread_affinity g of
        None \<Rightarrow> ([], None, Exit 1)
      | Some ta \<Rightarrow>
          let n = unat (num_threads g);
              tt = (if calloc_task_thread_ok env then Some (replicate n NULL) else None);
              dr = (if calloc_data_ready_ok env then Some (replicate n NULL) else None);
              tr = (if calloc_thread_ready_ok env then Some (replicate n NULL) else None);
              td = (if calloc_thread_data_ok env then Some (replicate n 0) else None);
              allocs = [Calloc A_task_thread, Calloc A_data_ready, Calloc A_thread_ready,
                        Calloc A_thread_data]
          in case (tt, dr, tr, td) of
               (Some tts, Some drs, Some trs, Some tds) \<Rightarrow>
                 (case control_run env (num_threads g) ta
                         \<lparr>task_thread = tts, data_ready_a = drs, thread_ready_a = trs,
                          thread_data_a = tds\<rparr> of
                    (t, slots, r) \<Rightarrow> (allocs @ t, Some slots, r))
             | _ \<Rightarrow>
                 (case out_label n tt dr tr 1 of
                    (t, r) \<Rightarrow>
                      (allocs @ [Fprintf_stderr ''Alloc error.\<newline>''] @ t, td, r)))"

section \<open>main_utf8\<close>

text \<open>
  The environment of \<open>main_utf8\<close>: the environments of the planner and of the control
  thread, the handle returned by \<open>CreateThread\<close> for the control thread, and the result
  of \<open>WaitForSingleObject(control_thread, INFINITE)\<close>. The banner written to \<open>stderr\<close>
  does not influence the control flow and is left out.
\<close>

record main_env =
  planner_env :: affinity_env
  new_control_thread :: handle
  controller_env :: control_env
  control_wait :: dword

text \<open>
  The result of the process: the value \<open>main_utf8\<close> returns, or a crash when the control
  thread runs into undefined behaviour. The second component is what the control thread
  did, when it was started.
\<close>

datatype process_result = Returned int | Crashed outcome

definition main_utf8 ::
  "main_env \<Rightarrow> process_result \<times> (action list \<times> dword list option \<times> outcome) option" where
  "main_utf8 env =
     (case SetThreadAffinity (planner_env env) initial_globals of
        (False, g, t) \<Rightarrow> (Returned 1, None)
      | (True, g, t) \<Rightarrow>
          if new_control_thread env = NULL then (Returned 1, None)
          else
            (case ControlThread (controller_env env) g of
               (tc, slots, Exit rc) \<Rightarrow>
                 (if control_wait env \<noteq> WAIT_OBJECT_0 then Returned 1 else Returned 0,
                  Some (tc, slots, Exit rc))
             | (tc, slots, f) \<Rightarrow> (Crashed f, Some (tc, slots, f))))"

section \<open>Notions used to state the properties\<close>

text \<open>
  A pass of the worker in which both calls succeed and the slot holds work, and one in
  which both calls succeed and the slot holds the sentinel.
\<close>

definition processing_round :: "worker_round \<Rightarrow> bool" where
  "processing_round e \<longleftrightarrow> ready_ok e \<and> wait_result e = WAIT_OBJECT_0 \<and> slot_at_test e \<noteq> 0"

definition sentinel_round :: "worker_round \<Rightarrow> bool" where
  "sentinel_round e \<longleftrightarrow> ready_ok e \<and> wait_result e = WAIT_OBJECT_0 \<and> slot_at_test e = 0"

text \<open>
  Classes of actions: the blocking waits, the calls made while the workers are created,
  and the calls made after the label \<open>out\<close>.
\<close>

fun is_wait :: "action \<Rightarrow> bool" where
  "is_wait (WaitForSingleObject h t) = True"
| "is_wait (WaitForMultipleObjects n hs b t) = True"
| "is_wait _ = False"

fun is_ready_wait :: "action \<Rightarrow> bool" where
  "is_ready_wait (WaitForMultipleObjects n hs b t) = (\<not> b)"
| "is_ready_wait _ = False"

fun setup_action :: "action \<Rightarrow> bool" where
  "setup_action CreateEvent = True"
| "setup_action (CreateThread i) = True"
| "setup_action (SetThreadPriority h) = True"
| "setup_action (SetThreadAffinityMask h m) = True"
| "setup_action (Printf f xs) = True"
| "setup_action _ = False"

fun teardown_action :: "action \<Rightarrow> bool" where
  "teardown_action (TerminateThread h r) = True"
| "teardown_action (CloseHandle h) = True"
| "teardown_action (Free p) = True"
| "teardown_action _ = False"

text \<open>
  The single stores into work-item slots (slot index and value), in order, and the check that
  a trace hands work over correctly: every store into a slot is immediately followed by
  the \<open>SetEvent\<close> on the data-ready event of the same worker, and there is no other
  \<open>SetEvent\<close>.
\<close>

fun stores :: "action list \<Rightarrow> (nat \<times> dword) list" where
  "stores [] = []"
| "stores (Store_thread_data i v # t) = (i, v) # stores t"
| "stores (x # t) = stores t"

fun handoffs_ok :: "handle list \<Rightarrow> action list \<Rightarrow> bool" where
  "handoffs_ok dr [] = True"
| "handoffs_ok dr (x # t) =
     (case x of
        Store_thread_data i v \<Rightarrow>
          (case t of
             SetEvent h # t' \<Rightarrow> h = dr ! i \<and> handoffs_ok dr t'
           | _ \<Rightarrow> False)
      | SetEvent h \<Rightarrow> False
      | _ \<Rightarrow> handoffs_ok dr t)"

text \<open>The arrays as the four successful \<open>calloc\<close> calls leave them, and the cleanup
  after \<open>out\<close> when every worker was created.\<close>

definition fresh_arrays :: "nat \<Rightarrow> arrays" where
  "fresh_arrays n =
     \<lparr>task_thread = replicate n NULL, data_ready_a = replicate n NULL,
      thread_ready_a = replicate n NULL, thread_data_a = replicate n 0\<rparr>"

definition forced_cleanup :: "control_env \<Rightarrow> nat \<Rightarrow> action list" where
  "forced_cleanup env n =
     concat (map (\<lambda>i. [TerminateThread (new_task_thread env i) 1,
                        CloseHandle (new_data_ready env i),
                        CloseHandle (new_thread_ready env i)]) [0..<n])
     @ [Free A_data_ready, Free A_thread_ready, Free A_task_thread, Free A_thread_data]"

text \<open>
  Abbreviations for the proofs about the loops of \<open>ControlThread\<close>: the arrays after
  worker \<open>i\<close> was created, the condition under which the creation loop goes round, the
  condition under which a dispatch round completes, the actions a dispatch round can make,
  the arrays after a store into a slot, and what the cleanup loop does for worker \<open>i\<close>.
\<close>

definition created :: "control_env \<Rightarrow> nat \<Rightarrow> arrays \<Rightarrow> arrays" where
  "created env i a =
     a\<lparr>data_ready_a := (data_ready_a a)[i := new_data_ready env i],
       thread_ready_a := (thread_ready_a a)[i := new_thread_ready env i],
       task_thread := (task_thread a)[i := new_task_thread env i]\<rparr>"

definition creates :: "control_env \<Rightarrow> dword_ptr list \<Rightarrow> nat \<Rightarrow> nat \<Rightarrow> bool" where
  "creates env ta n i \<longleftrightarrow>
     i < n \<and> new_data_ready env i \<noteq> NULL \<and> new_thread_ready env i \<noteq> NULL \<and>
     new_task_thread env i \<noteq> NULL \<and> i < length ta"

definition round_ok :: "control_env \<Rightarrow> dword \<Rightarrow> arrays \<Rightarrow> nat \<Rightarrow> bool" where
  "round_ok env nt a it \<longleftrightarrow>
     it \<le> MAX_ITERATIONS \<and> \<not> cancel_at env it \<and> \<not> WAIT_OBJECT_0 + nt \<le> ready_wait env it \<and>
     unat (ready_wait env it) < length (thread_data_a a) \<and>
     unat (ready_wait env it) < length (data_ready_a a) \<and> signal_ok env it"

definition dispatch_action :: "dword \<Rightarrow> handle list \<Rightarrow> action \<Rightarrow> bool" where
  "dispatch_action nt trs x \<longleftrightarrow>
     x = WaitForMultipleObjects nt trs False WAIT_TIME \<or> (\<exists>i v. x = Store_thread_data i v) \<or>
     (\<exists>h. x = SetEvent h) \<or> (\<exists>f xs. x = Printf f xs)"

definition stored :: "arrays \<Rightarrow> nat \<Rightarrow> dword \<Rightarrow> arrays" where
  "stored a i v = a\<lparr>thread_data_a := (thread_data_a a)[i := v]\<rparr>"

definition release :: "handle list \<Rightarrow> handle list \<Rightarrow> handle list \<Rightarrow> nat \<Rightarrow> action list" where
  "release tt dr tr i =
     (if tt ! i \<noteq> NULL then [TerminateThread (tt ! i) 1] else [])
     @ (if dr ! i \<noteq> NULL then [CloseHandle (dr ! i)] else [])
     @ (if tr ! i \<noteq> NULL then [CloseHandle (tr ! i)] else [])"

text \<open>The four \<open>calloc\<close> calls of \<open>ControlThread\<close>, and the case that all succeed.\<close>

definition allocs :: "action list" where
  "allocs = [Calloc A_task_thread, Calloc A_data_ready, Calloc A_thread_ready, Calloc A_thread_data]"

definition all_allocated :: "control_env \<Rightarrow> bool" where
  "all_allocated env \<longleftrightarrow>
     calloc_task_thread_ok env \<and> calloc_data_ready_ok env \<and> calloc_thread_ready_ok env \<and>
     calloc_thread_data_ok env"

text \<open>
  What is required of an action of the Control Loop that suspends the thread: a wait is
  the wait for any ready event or the wait for all worker threads, with the timeout
  \<open>WAIT_TIME\<close>, and a sleep is the grace period of 250 ms.
\<close>

definition control_blocking_ok :: "control_env \<Rightarrow> dword \<Rightarrow> action \<Rightarrow> bool" where
  "control_blocking_ok env nt x \<longleftrightarrow>
     (is_wait x \<longrightarrow>
        x = WaitForMultipleObjects nt (map (new_thread_ready env) [0..<unat nt]) False WAIT_TIME \<or>
        x = WaitForMultipleObjects nt (map (new_task_thread env) [0..<unat nt]) True WAIT_TIME) \<and>
     (\<forall>d. x = Sleep d \<longrightarrow> d = 250)"

text \<open>
  The parts of the trace of a run without failures: the creation of worker \<open>i\<close>, a
  dispatch round (with the arrays as the creation loop fills them), the condition under
  which round \<open>j\<close> finds a ready worker and hands over, and the cleanup after a
  successful wait for the workers.
\<close>

definition worker_setup :: "control_env \<Rightarrow> dword_ptr list \<Rightarrow> nat \<Rightarrow> action list" where
  "worker_setup env ta i =
     [CreateEvent, CreateEvent, CreateThread i, SetThreadPriority (new_task_thread env i)]
     @ (if ta ! i \<noteq> 0 then [SetThreadAffinityMask (new_task_thread env i) (ta ! i)] else [])"

definition round_trace :: "control_env \<Rightarrow> dword \<Rightarrow> nat \<Rightarrow> action list" where
  "round_trace env nt j =
     [WaitForMultipleObjects nt (map (new_thread_ready env) [0..<unat nt]) False WAIT_TIME,
      Store_thread_data (unat (ready_wait env j)) (of_nat j),
      SetEvent (new_data_ready env (unat (ready_wait env j)))]"

definition clean_round :: "control_env \<Rightarrow> dword \<Rightarrow> nat \<Rightarrow> bool" where
  "clean_round env nt j \<longleftrightarrow>
     \<not> cancel_at env j \<and> ready_wait env j < nt \<and> signal_ok env j"

definition graceful_cleanup :: "control_env \<Rightarrow> nat \<Rightarrow> action list" where
  "graceful_cleanup env n =
     concat (map (\<lambda>i. [CloseHandle (new_data_ready env i),
                        CloseHandle (new_thread_ready env i)]) [0..<n])
     @ [Free A_data_ready, Free A_thread_ready, Free A_task_thread, Free A_thread_data]"

text \<open>
  A sample environment in which every call succeeds and worker 0 is always the one that
  is ready, and the globals as the planner leaves them on a machine with one usable core.
\<close>

definition sample_control_env :: control_env where
  "sample_control_env =
     \<lparr>calloc_task_thread_ok = True, calloc_data_ready_ok = True,
      calloc_thread_ready_ok = True, calloc_thread_data_ok = True,
      new_data_ready = (\<lambda>i. 10 + i), new_thread_ready = (\<lambda>i. 20 + i),
      new_task_thread = (\<lambda>i. 30 + i), cancel_at = (\<lambda>k. False),
      ready_wait = (\<lambda>k. 0), signal_ok = (\<lambda>k. True), join_wait = WAIT_OBJECT_0\<rparr>"

definition one_core_globals :: globals where
  "one_core_globals = initial_globals\<lparr>num_threads := 1, thread_affinity := Some [1]\<rparr>"

text \<open>
  The sample environment with a failure injected: the first dispatch round succeeds and
  the wait of the second round times out.
\<close>

definition timeout_env :: control_env where
  "timeout_env = sample_control_env\<lparr>ready_wait := (\<lambda>k. if k = 1 then 0 else WAIT_TIMEOUT)\<rparr>"

text \<open>Auxiliary functions for the correctness proof of \<open>popcnt64\<close>, on natural numbers.\<close>

fun fsum :: "nat \<Rightarrow> nat \<Rightarrow> nat \<Rightarrow> nat" where
  "fsum w 0 x = 0"
| "fsum w (Suc n) x = take_bit w x + fsum w n (drop_bit w x)"

fun altmask :: "nat \<Rightarrow> nat \<Rightarrow> nat" where
  "altmask w 0 = 0"
| "altmask w (Suc n) = mask w + push_bit (2 * w) (altmask w n)"

definition stepn :: "nat \<Rightarrow> nat \<Rightarrow> nat \<Rightarrow> nat" where
  "stepn k m u = (u AND m) + (drop_bit k u AND m)"

definition popcnt_u6 :: "64 word \<Rightarrow> 64 word" where
  "popcnt_u6 u0 =
    (let u1 = popcnt_step 1 0x5555555555555555 u0;
         u2 = popcnt_step 2 0x3333333333333333 u1;
         u3 = popcnt_step 4 0x0f0f0f0f0f0f0f0f u2;
         u4 = popcnt_step 8 0x00ff00ff00ff00ff u3;
         u5 = popcnt_step 16 0x0000ffff0000ffff u4;
         u6 = popcnt_step 32 0x00000000ffffffff u5
     in u6)"

section \<open>Correctness of popcnt64\<close>

lemma mask_plus_push_bit:
  "mask w + push_bit (2 * w) (m::nat) = mask w OR push_bit (2 * w) m"
  by (rule disjunctive_add) (auto simp: bit_simps)

lemma take_plus_push_bit:
  "take_bit w (x::nat) + push_bit (2 * w) y = take_bit w x OR push_bit (2 * w) y"
  by (rule disjunctive_add) (auto simp: bit_simps)

lemma and_altmask_Suc:
  "(x::nat) AND altmask w (Suc n) =
     take_bit w x + push_bit (2 * w) (drop_bit (2 * w) x AND altmask w n)"
  unfolding altmask.simps mask_plus_push_bit take_plus_push_bit
  by (rule bit_eqI) (auto simp: bit_simps)

lemma stepn_Suc:
  "stepn w (altmask w (Suc n)) x =
     (take_bit w x + take_bit w (drop_bit w x)) + push_bit (2 * w) (stepn w (altmask w n) (drop_bit (2 * w) x))"
  unfolding stepn_def and_altmask_Suc
  by (simp add: push_bit_add drop_bit_drop_bit add.commute)

lemma two_fields_bound:
  assumes "0 < w"
  shows "take_bit w (x::nat) + take_bit w (y::nat) < 2 ^ (2 * w)"
proof -
  have "take_bit w x < 2 ^ w" "take_bit w y < 2 ^ w" by simp_all
  then have "take_bit w x + take_bit w y < 2 * 2 ^ w" by linarith
  also have "(2::nat) * 2 ^ w \<le> 2 ^ w * 2 ^ w" using assms by (cases w) simp_all
  finally show ?thesis by (simp add: power_add mult_2)
qed

lemma take_bit_stepn_Suc:
  assumes "0 < w"
  shows "take_bit (2 * w) (stepn w (altmask w (Suc n)) x) = take_bit w x + take_bit w (drop_bit w x)"
  unfolding stepn_Suc using two_fields_bound[OF assms, of x "drop_bit w x"]
  by (simp add: take_bit_eq_mod push_bit_eq_mult)

lemma drop_bit_stepn_Suc:
  assumes "0 < w"
  shows "drop_bit (2 * w) (stepn w (altmask w (Suc n)) x) = stepn w (altmask w n) (drop_bit (2 * w) x)"
  unfolding stepn_Suc using two_fields_bound[OF assms, of x "drop_bit w x"]
  by (simp add: drop_bit_eq_div push_bit_eq_mult)

lemma fsum_stepn:
  assumes "0 < w"
  shows "fsum (2 * w) n (stepn w (altmask w n) x) = fsum w (2 * n) x"
proof (induction n arbitrary: x)
  case 0
  show ?case by simp
next
  case (Suc n)
  have "fsum (2 * w) (Suc n) (stepn w (altmask w (Suc n)) x) =
        take_bit w x + take_bit w (drop_bit w x) + fsum w (2 * n) (drop_bit (2 * w) x)"
    by (simp only: fsum.simps take_bit_stepn_Suc[OF assms] drop_bit_stepn_Suc[OF assms] Suc.IH)
  also have "\<dots> = fsum w (Suc (Suc (2 * n))) x"
    by (simp add: drop_bit_drop_bit mult_2)
  finally show ?case by simp
qed

lemma fsum_bits: "fsum 1 n x = length (filter (bit x) [0..<n])"
proof (induction n arbitrary: x)
  case 0
  show ?case by simp
next
  case (Suc n)
  have "filter (bit x) [0..<Suc n] = filter (bit x) (0 # map Suc [0..<n])"
    by (simp only: upt_conv_Cons[of 0 "Suc n"] map_Suc_upt zero_less_Suc if_True)
  then have "length (filter (bit x) [0..<Suc n]) = of_bool (bit x 0) + length (filter (bit x \<circ> Suc) [0..<n])"
    by (simp add: filter_map)
  moreover have "bit x \<circ> Suc = bit (drop_bit 1 x)"
    by (auto simp: fun_eq_iff bit_simps)
  moreover have "take_bit 1 x = of_bool (bit x 0)"
    by (simp add: bit_0 take_bit_Suc mod_2_eq_odd)
  moreover have "fsum 1 (Suc n) x = take_bit 1 x + fsum 1 n (drop_bit 1 x)"
    by simp
  ultimately show ?case
    by (simp only: Suc.IH)
qed


lemma altmask_numeral:
  "altmask w (numeral k) = mask w + push_bit (2 * w) (altmask w (pred_numeral k))"
  by (simp add: numeral_eq_Suc)

lemma altmask_1: "altmask w 1 = mask w"
  using altmask.simps(2)[of w 0] by simp

lemmas altmask_eval = altmask_numeral altmask_1 mask_eq_exp_minus_1 push_bit_eq_mult

lemma and_le_right_nat: "(x::nat) AND m \<le> m"
  by (metis AND_upper2 of_nat_0_le_iff of_nat_and_eq of_nat_le_iff)

lemma unat_popcnt_step:
  assumes "2 * unat m < 2 ^ 64"
  shows "unat (popcnt_step k m u) = stepn k (unat m) (unat u)"
proof -
  have a: "unat (u AND m) = unat u AND unat m"
    by (simp add: unsigned_and_eq)
  have b: "unat (drop_bit k u AND m) = drop_bit k (unat u) AND unat m"
    by (simp add: unsigned_and_eq unat_drop_bit_eq)
  have "unat (u AND m) \<le> unat m" "unat (drop_bit k u AND m) \<le> unat m"
    unfolding a b by (rule and_le_right_nat)+
  then have "unat (u AND m) + unat (drop_bit k u AND m) < 2 ^ LENGTH(64)"
    using assms by simp
  then have "unat ((u AND m) + (drop_bit k u AND m)) = unat (u AND m) + unat (drop_bit k u AND m)"
    by (simp only: unat_add_lem)
  then show ?thesis
    by (simp add: popcnt_step_def stepn_def a b)
qed

lemma fsum_popcnt_step:
  assumes "0 < w" and "unat m = altmask w n" and "2 * unat m < 2 ^ 64"
  shows "fsum (2 * w) n (unat (popcnt_step w m u)) = fsum w (2 * n) (unat u)"
  by (simp only: unat_popcnt_step[OF assms(3)] assms(2) fsum_stepn[OF assms(1)])

lemma fsum_popcnt_u6: "fsum 64 1 (unat (popcnt_u6 u)) = fsum 1 64 (unat u)"
proof -
  have s1: "fsum 2 32 (unat (popcnt_step 1 0x5555555555555555 v)) = fsum 1 64 (unat v)" for v
    using fsum_popcnt_step[of 1 "0x5555555555555555" 32 v] by (simp add: altmask_eval)
  have s2: "fsum 4 16 (unat (popcnt_step 2 0x3333333333333333 v)) = fsum 2 32 (unat v)" for v
    using fsum_popcnt_step[of 2 "0x3333333333333333" 16 v] by (simp add: altmask_eval)
  have s3: "fsum 8 8 (unat (popcnt_step 4 0x0f0f0f0f0f0f0f0f v)) = fsum 4 16 (unat v)" for v
    using fsum_popcnt_step[of 4 "0x0f0f0f0f0f0f0f0f" 8 v] by (simp add: altmask_eval)
  have s4: "fsum 16 4 (unat (popcnt_step 8 0x00ff00ff00ff00ff v)) = fsum 8 8 (unat v)" for v
    using fsum_popcnt_step[of 8 "0x00ff00ff00ff00ff" 4 v] by (simp add: altmask_eval)
  have s5: "fsum 32 2 (unat (popcnt_step 16 0x0000ffff0000ffff v)) = fsum 16 4 (unat v)" for v
    using fsum_popcnt_step[of 16 "0x0000ffff0000ffff" 2 v] by (simp add: altmask_eval)
  have s6: "fsum 64 1 (unat (popcnt_step 32 0x00000000ffffffff v)) = fsum 32 2 (unat v)" for v
    using fsum_popcnt_step[of 32 "0x00000000ffffffff" 1 v] by (simp add: altmask_eval)
  show ?thesis
    unfolding popcnt_u6_def Let_def by (simp only: s1 s2 s3 s4 s5 s6)
qed

lemma unat_popcnt_u6: "unat (popcnt_u6 u) = length (filter (bit u) [0..<64])"
proof -
  have a: "fsum 64 1 (unat (popcnt_u6 u)) = unat (popcnt_u6 u)"
    using unsigned_less[of "popcnt_u6 u", where 'a = nat]
    by (simp add: take_bit_nat_eq_self_iff)
  have b: "filter (bit (unat u)) [0..<64] = filter (bit u) [0..<64]"
    by (rule filter_cong) (simp_all add: bit_unsigned_iff)
  have "unat (popcnt_u6 u) = fsum 1 64 (unat u)"
    using a fsum_popcnt_u6[of u] by (rule trans[OF sym])
  also have "\<dots> = length (filter (bit u) [0..<64])"
    by (simp only: fsum_bits b)
  finally show ?thesis .
qed

lemma unat_popcnt64: "unat (popcnt64 u) = length (filter (bit u) [0..<64])"
proof -
  have le: "length (filter (bit u) [0..<64]) \<le> 64"
    using length_filter_le[of "bit u" "[0..<64]"] by simp
  have "popcnt64 u = ucast (popcnt_u6 u)"
    by (simp add: popcnt64_def popcnt_u6_def Let_def)
  then have "unat (popcnt64 u) = unat (popcnt_u6 u) mod 2 ^ 8"
    by (simp add: unsigned_ucast_eq take_bit_eq_mod)
  then show ?thesis
    using le by (simp add: unat_popcnt_u6)
qed
section \<open>Correctness of the affinity loop\<close>

lemma odd_and_minus:
  fixes b :: "'a::len word"
  assumes "odd b"
  shows "b AND - b = 1"
proof -
  have "push_bit 1 (drop_bit 1 b) + take_bit 1 b = b"
    by (rule bits_ident)
  moreover have "take_bit 1 b = 1"
    using assms by (simp add: take_bit_Suc_from_most take_bit_eq_mod mod_2_eq_odd)
  ultimately have dec: "b - 1 = push_bit 1 (drop_bit 1 b)"
    by (metis add_diff_cancel_right')
  have dec_bit: "bit (b - 1) n \<longleftrightarrow> 0 < n \<and> bit b n" for n
  proof (cases n)
    case 0
    then show ?thesis using assms by (simp add: bit_0)
  next
    case (Suc m)
    have "bit (push_bit 1 (drop_bit 1 b)) (Suc m) \<longleftrightarrow> bit b (Suc m)"
      by (simp only: bit_push_bit_iff bit_drop_bit_eq) (auto dest: bit_imp_possible_bit)
    then show ?thesis using Suc by (simp only: dec) simp
  qed
  show ?thesis
  proof (rule bit_eqI)
    fix n
    assume "possible_bit TYPE('a word) n"
    then show "bit (b AND - b) n = bit (1 :: 'a word) n"
      using assms
      by (auto simp: bit_and_iff bit_minus_iff dec_bit bit_1_iff bit_0)
  qed
qed

lemma lowest_bit:
  fixes a :: "'a::len word"
  assumes "bit a k" and "\<And>n. n < k \<Longrightarrow> \<not> bit a n"
  shows "a AND - a = 2 ^ k"
proof -
  have "take_bit k a = 0"
    by (rule bit_eqI) (use assms(2) in \<open>auto simp: bit_simps\<close>)
  then have a: "a = push_bit k (drop_bit k a)"
    using bits_ident[of k a] by simp
  have odd: "odd (drop_bit k a)"
    using assms(1) by (simp add: bit_iff_odd_drop_bit)
  have "a AND - a = push_bit k (drop_bit k a) AND - push_bit k (drop_bit k a)"
    using a by simp
  also have "\<dots> = push_bit k (drop_bit k a AND - drop_bit k a)"
    by (simp add: push_bit_and push_bit_minus)
  finally show ?thesis
    by (simp add: odd_and_minus[OF odd])
qed

lemma bit_clear_lowest:
  fixes a :: "'a::len word"
  assumes "bit a k"
  shows "bit (a XOR 2 ^ k) n \<longleftrightarrow> bit a n \<and> n \<noteq> k"
  using assms by (auto simp: bit_simps dest: bit_imp_le_length)


lemma sorted_set_bit_positions: "sorted (set_bit_positions a)"
  by (simp add: set_bit_positions_def sorted_wrt_filter)

lemma distinct_set_bit_positions: "distinct (set_bit_positions a)"
  by (simp add: set_bit_positions_def)

lemma set_set_bit_positions: "set (set_bit_positions a) = {n. bit a n}"
  by (auto simp: set_bit_positions_def dest: bit_imp_le_length)

lemma set_bit_positions_Cons:
  assumes "set_bit_positions a = k # ks"
  shows "bit a k" and "\<And>n. n < k \<Longrightarrow> \<not> bit a n"
    and "set_bit_positions (a XOR 2 ^ k) = ks"
proof -
  have k: "k \<in> set (set_bit_positions a)" using assms by simp
  then show bk: "bit a k" by (simp add: set_set_bit_positions)
  have gt: "\<forall>x \<in> set ks. k < x"
    using sorted_set_bit_positions[of a] distinct_set_bit_positions[of a] assms
    by (auto simp: le_less)
  show "\<not> bit a n" if "n < k" for n
  proof
    assume "bit a n"
    then have "n \<in> set (k # ks)"
      using set_set_bit_positions[of a] assms by simp
    with gt that show False by auto
  qed
  have "set_bit_positions (a XOR 2 ^ k) = filter (\<lambda>n. bit a n \<and> n \<noteq> k) [0..<64]"
    unfolding set_bit_positions_def
    by (rule filter_cong) (simp_all add: bit_clear_lowest[OF bk])
  also have "\<dots> = filter (\<lambda>n. n \<noteq> k) (set_bit_positions a)"
    by (simp add: set_bit_positions_def conj_commute)
  also have "\<dots> = ks"
    using gt by (auto simp: assms filter_id_conv)
  finally show "set_bit_positions (a XOR 2 ^ k) = ks" .
qed

declare spread_affinity.simps [simp del]

lemma spread_affinity_eq:
  "length ta = n \<Longrightarrow> i \<le> n \<Longrightarrow> n - i \<le> length (set_bit_positions a) \<Longrightarrow>
   spread_affinity i n ta a =
     take i ta @ map (\<lambda>j. ta ! j OR 2 ^ (set_bit_positions a ! (j - i))) [i..<n]"
proof (induction i n ta a rule: spread_affinity.induct)
  case (1 i n ta a)
  show ?case
  proof (cases "i < n")
    case False
    with "1.prems" show ?thesis by (subst spread_affinity.simps) simp
  next
    case True
    with "1.prems" obtain k ks where ps: "set_bit_positions a = k # ks"
      by (cases "set_bit_positions a") auto
    note low = set_bit_positions_Cons[OF ps]
    have lb: "a AND - a = 2 ^ k"
      by (rule lowest_bit) (use low in auto)
    let ?ta = "ta[i := ta ! i OR 2 ^ k]"
    have ih: "spread_affinity (i + 1) n ?ta (a XOR 2 ^ k) =
        take (i + 1) ?ta @ map (\<lambda>j. ?ta ! j OR 2 ^ (ks ! (j - (i + 1)))) [i + 1..<n]"
      using "1.IH"[OF True] "1.prems" True ps low(3) by (simp add: lb)
    have t: "take (i + 1) ?ta = take i ta @ [ta ! i OR 2 ^ k]"
      using True "1.prems"(1) by (simp add: take_Suc_conv_app_nth)
    have m: "map (\<lambda>j. ?ta ! j OR 2 ^ (ks ! (j - (i + 1)))) [i + 1..<n] =
             map (\<lambda>j. ta ! j OR 2 ^ ((k # ks) ! (j - i))) [i + 1..<n]"
      by (rule map_cong) (auto simp: nth_Cons')
    have u: "[i..<n] = i # [i + 1..<n]"
      using True by (simp add: upt_conv_Cons)
    have "spread_affinity i n ta a = spread_affinity (i + 1) n ?ta (a XOR 2 ^ k)"
      using True by (subst spread_affinity.simps) (simp add: lb)
    then show ?thesis
      by (simp only: ih t m u ps) simp
  qed
qed

lemma spread_affinity_init:
  assumes "n \<le> length (set_bit_positions a)"
  shows "spread_affinity 0 n (replicate n 0) a = map (\<lambda>p. 2 ^ p) (take n (set_bit_positions a))"
proof -
  have "spread_affinity 0 n (replicate n 0) a =
        map (\<lambda>j. replicate n 0 ! j OR 2 ^ (set_bit_positions a ! (j - 0))) [0..<n]"
    using spread_affinity_eq[of "replicate n 0" n 0 a] assms by simp
  also have "\<dots> = map (\<lambda>j. 2 ^ (set_bit_positions a ! j)) [0..<n]"
    by (rule map_cong) simp_all
  also have "\<dots> = map (\<lambda>p. 2 ^ p) (take n (set_bit_positions a))"
    using assms by (auto simp: list_eq_iff_nth_eq)
  finally show ?thesis .
qed

lemma usable_cores_popcnt64: "usable_cores a = unat (popcnt64 a)"
  by (simp add: usable_cores_def set_bit_positions_def unat_popcnt64)

lemma unat_num_threads_popcnt64: "unat (ucast (popcnt64 a) :: dword) = usable_cores a"
  by (simp add: usable_cores_popcnt64 unsigned_ucast_eq take_bit_nat_eq_self_iff)
    (rule less_trans[OF unsigned_less], simp)

lemma usable_cores_le: "usable_cores a \<le> 64"
  using length_filter_le[of "bit a" "[0..<64]"]
  by (simp add: usable_cores_def set_bit_positions_def)

lemma set_bit_positions_nth:
  assumes "i < usable_cores a"
  shows "bit a (set_bit_positions a ! i)" and "set_bit_positions a ! i < 64"
  using nth_mem[of i "set_bit_positions a"] assms
  by (auto simp: usable_cores_def set_set_bit_positions dest: bit_imp_le_length)

lemma set_bit_positions_ascending:
  assumes "i < j" and "j < usable_cores a"
  shows "set_bit_positions a ! i < set_bit_positions a ! j"
proof -
  have "set_bit_positions a ! i \<le> set_bit_positions a ! j"
    using sorted_set_bit_positions[of a] assms
    by (simp add: sorted_iff_nth_mono usable_cores_def)
  moreover have "set_bit_positions a ! i \<noteq> set_bit_positions a ! j"
    using distinct_set_bit_positions[of a] assms
    by (simp add: nth_eq_iff_index_eq usable_cores_def)
  ultimately show ?thesis by simp
qed

lemma single_bits_disjoint:
  fixes p q :: nat
  assumes "p \<noteq> q"
  shows "(2 ^ p :: dword_ptr) AND 2 ^ q = 0"
  by (rule bit_eqI) (use assms in \<open>auto simp: bit_simps\<close>)

lemma SetThreadAffinity_spare_success:
  assumes "process_affinity env = Some a" and "calloc_affinity_ok env"
    and "unat spare < usable_cores a"
  shows "SetThreadAffinity_spare spare env g =
           (True,
            g\<lparr>num_threads := ucast (popcnt64 a) - spare,
              thread_affinity :=
                Some (map (\<lambda>p. 2 ^ p) (take (usable_cores a - unat spare) (set_bit_positions a)))\<rparr>,
            [Calloc A_thread_affinity])"
    and "unat (ucast (popcnt64 a) - spare :: dword) = usable_cores a - unat spare"
proof -
  have gt: "\<not> (ucast (popcnt64 a) :: dword) \<le> spare"
    using assms(3) by (simp add: word_le_nat_alt unat_num_threads_popcnt64)
  then show n: "unat (ucast (popcnt64 a) - spare :: dword) = usable_cores a - unat spare"
    by (simp add: unat_sub unat_num_threads_popcnt64)
  have "usable_cores a - unat spare \<le> length (set_bit_positions a)"
    by (simp add: usable_cores_def)
  then show "SetThreadAffinity_spare spare env g =
           (True,
            g\<lparr>num_threads := ucast (popcnt64 a) - spare,
              thread_affinity :=
                Some (map (\<lambda>p. 2 ^ p) (take (usable_cores a - unat spare) (set_bit_positions a)))\<rparr>,
            [Calloc A_thread_affinity])"
    using assms(1,2) gt
    by (simp add: SetThreadAffinity_spare_def Let_def n spread_affinity_init)
qed

section \<open>Evaluation and the worker loop\<close>

lemmas eval_simps = sample_control_env_def one_core_globals_def initial_globals_def
  ControlThread_def control_run_def out_arrays_def out_label_def array_read_def
  shutdown_broadcast_def NULL_def WAIT_OBJECT_0_def WAIT_TIMEOUT_def WAIT_TIME_def
  MAX_ITERATIONS_def Let_def create_workers.simps dispatch_loop.simps cleanup_loop.simps

lemma worker_body_processing:
  assumes "array_read (thread_ready g) (unat i) = Inr tr"
    and "array_read (data_ready g) (unat i) = Inr dr"
    and "array_read (thread_data g) (unat i) = Inr v"
    and "processing_round e"
  shows "snd (worker_body g i e) = None"
  using assms by (simp add: worker_body_def processing_round_def)

lemma worker_body_sentinel:
  assumes "array_read (thread_ready g) (unat i) = Inr tr"
    and "array_read (data_ready g) (unat i) = Inr dr"
    and "array_read (thread_data g) (unat i) = Inr v"
    and "sentinel_round e"
  shows "worker_body g i e =
           ([SetEvent tr, WaitForSingleObject dr WAIT_TIME, Load_thread_data (unat i),
             Printf ''Thread #%02d exiting\<newline>'' [i]], Some (Exit 0))"
  using assms by (simp add: worker_body_def sentinel_round_def)

section \<open>The loops of ControlThread\<close>

declare create_workers.simps [simp del] dispatch_loop.simps [simp del] cleanup_loop.simps [simp del]

lemma create_workers_stop:
  assumes "\<not> creates env ta n i" and "create_workers env ta n i a = (a', t, f)"
  shows "(\<forall>x \<in> set t. setup_action x) \<and> thread_data_a a' = thread_data_a a \<and>
         length (task_thread a') = length (task_thread a) \<and>
         length (data_ready_a a') = length (data_ready_a a) \<and>
         length (thread_ready_a a') = length (thread_ready_a a) \<and>
         (f = Next \<longrightarrow> a' = a \<and> \<not> i < n)"
  using assms
  by (subst (asm) create_workers.simps) (auto simp: creates_def Let_def split: if_splits)

lemma create_workers_go:
  assumes "creates env ta n i"
  shows "create_workers env ta n i a =
           (case create_workers env ta n (i + 1) (created env i a) of
              (a3, t, f) \<Rightarrow>
                (a3,
                 [CreateEvent, CreateEvent, CreateThread i,
                  SetThreadPriority (new_task_thread env i)]
                 @ (if ta ! i \<noteq> 0
                    then [SetThreadAffinityMask (new_task_thread env i) (ta ! i)]
                    else [])
                 @ t,
                 f))"
  using assms
  by (subst create_workers.simps) (simp add: creates_def created_def Let_def)


lemma create_workers_frame:
  "create_workers env ta n i a = (a', t, f) \<Longrightarrow>
     (\<forall>x \<in> set t. setup_action x) \<and> thread_data_a a' = thread_data_a a \<and>
     length (task_thread a') = length (task_thread a) \<and>
     length (data_ready_a a') = length (data_ready_a a) \<and>
     length (thread_ready_a a') = length (thread_ready_a a)"
proof (induction "n - i" arbitrary: i a a' t f)
  case 0
  then have "\<not> creates env ta n i" by (simp add: creates_def)
  from create_workers_stop[OF this "0.prems"] show ?case by simp
next
  case (Suc k)
  show ?case
  proof (cases "creates env ta n i")
    case False
    from create_workers_stop[OF this Suc.prems] show ?thesis by simp
  next
    case True
    obtain a3 t3 f3 where r: "create_workers env ta n (i + 1) (created env i a) = (a3, t3, f3)"
      by (cases "create_workers env ta n (i + 1) (created env i a)") auto
    have k: "k = n - (i + 1)" using Suc.hyps(2) by simp
    note ih = Suc.hyps(1)[OF k r]
    from Suc.prems r have "a' = a3" "f = f3"
      and "set t \<subseteq> {x. setup_action x} \<union> set t3"
      by (auto simp: create_workers_go[OF True])
    with ih show ?thesis
      by (auto simp: created_def)
  qed
qed

lemma create_workers_Next:
  "create_workers env ta n i a = (a', t, Next) \<Longrightarrow> i \<le> n \<Longrightarrow>
   length (task_thread a) = n \<Longrightarrow> length (data_ready_a a) = n \<Longrightarrow>
   length (thread_ready_a a) = n \<Longrightarrow>
     task_thread a' = take i (task_thread a) @ map (new_task_thread env) [i..<n] \<and>
     data_ready_a a' = take i (data_ready_a a) @ map (new_data_ready env) [i..<n] \<and>
     thread_ready_a a' = take i (thread_ready_a a) @ map (new_thread_ready env) [i..<n] \<and>
     (\<forall>j. i \<le> j \<and> j < n \<longrightarrow> creates env ta n j)"
proof (induction "n - i" arbitrary: i a a' t)
  case 0
  then have nc: "\<not> creates env ta n i" and "i = n" by (simp_all add: creates_def)
  with create_workers_stop[OF nc "0.prems"(1)] "0.prems" show ?case by auto
next
  case (Suc k)
  show ?case
  proof (cases "creates env ta n i")
    case False
    from create_workers_stop[OF this Suc.prems(1)] Suc.hyps(2) show ?thesis by simp
  next
    case True
    obtain a3 t3 f3 where r: "create_workers env ta n (i + 1) (created env i a) = (a3, t3, f3)"
      by (cases "create_workers env ta n (i + 1) (created env i a)") auto
    from Suc.prems(1) r have e: "a' = a3" "f3 = Next"
      by (auto simp: create_workers_go[OF True])
    have k: "k = n - (i + 1)" and lt: "i < n" using Suc.hyps(2) by simp_all
    have ih: "task_thread a3 =
        take (i + 1) (task_thread (created env i a)) @ map (new_task_thread env) [i + 1..<n] \<and>
      data_ready_a a3 =
        take (i + 1) (data_ready_a (created env i a)) @ map (new_data_ready env) [i + 1..<n] \<and>
      thread_ready_a a3 =
        take (i + 1) (thread_ready_a (created env i a)) @ map (new_thread_ready env) [i + 1..<n] \<and>
      (\<forall>j. i + 1 \<le> j \<and> j < n \<longrightarrow> creates env ta n j)"
      using Suc.hyps(1)[OF k r[unfolded e(2)]] lt Suc.prems(3,4,5)
      by (simp add: created_def)
    have u: "[i..<n] = i # [i + 1..<n]"
      using lt by (simp add: upt_conv_Cons)
    have t1: "take (Suc i) (xs[i := v]) = take i xs @ [v]" if "length xs = n" for xs :: "handle list" and v
      using that lt by (simp add: take_Suc_conv_app_nth)
    have c: "\<forall>j. i \<le> j \<and> j < n \<longrightarrow> creates env ta n j"
    proof (intro allI impI)
      fix j assume "i \<le> j \<and> j < n"
      then show "creates env ta n j"
        using ih True by (cases "j = i") auto
    qed
    show ?thesis
      using ih c Suc.prems(3,4,5)
      by (simp add: e(1) u created_def t1)
  qed
qed


lemma dispatch_loop_go:
  assumes "round_ok env nt a it"
  shows "dispatch_loop env nt a it =
           (case dispatch_loop env nt (stored a (unat (ready_wait env it)) (of_nat it)) (it + 1) of
              (td, t, f) \<Rightarrow>
                (td,
                 [WaitForMultipleObjects nt (thread_ready_a a) False WAIT_TIME,
                  Store_thread_data (unat (ready_wait env it)) (of_nat it),
                  SetEvent (data_ready_a a ! unat (ready_wait env it))] @ t,
                 f))"
  using assms
  by (subst dispatch_loop.simps) (simp add: round_ok_def stored_def Let_def)

lemma dispatch_loop_stop:
  assumes "\<not> round_ok env nt a it" and "dispatch_loop env nt a it = (td, t, f)"
  shows "length (filter is_ready_wait t) \<le> 1"
    and "it > MAX_ITERATIONS \<or> cancel_at env it \<Longrightarrow> t = [] \<and> f = Next"
    and "handoffs_ok (data_ready_a a) t"
    and "stores t = [] \<or> stores t = [(unat (ready_wait env it), of_nat it)] \<and> it \<le> MAX_ITERATIONS"
    and "\<forall>x \<in> set t. dispatch_action nt (thread_ready_a a) x"
    and "f = Next \<Longrightarrow> t = [] \<and> td = thread_data_a a"
  using assms
  by (subst (asm) dispatch_loop.simps;
      auto simp: round_ok_def dispatch_action_def Let_def split: if_splits)+


lemma handoffs_ok_round:
  "handoffs_ok dr (WaitForMultipleObjects nt trs b w # Store_thread_data i v # SetEvent h # t) =
     (h = dr ! i \<and> handoffs_ok dr t)"
  by simp

lemma dispatch_loop_props:
  "dispatch_loop env nt a it = (td, t, f) \<Longrightarrow>
     length (filter is_ready_wait t) \<le> Suc MAX_ITERATIONS - it \<and>
     (\<forall>k. cancel_at env k \<and> it \<le> k \<longrightarrow> length (filter is_ready_wait t) \<le> k - it) \<and>
     handoffs_ok (data_ready_a a) t \<and>
     (\<exists>m. stores t = map (\<lambda>j. (unat (ready_wait env j), of_nat j)) [it..<it + m] \<and> (m = 0 \<or> it + m \<le> Suc MAX_ITERATIONS)) \<and>
     (\<forall>x \<in> set t. dispatch_action nt (thread_ready_a a) x)"
proof (induction "Suc MAX_ITERATIONS - it" arbitrary: it a td t f)
  case 0
  then have nr: "\<not> round_ok env nt a it" and gt: "it > MAX_ITERATIONS"
    by (simp_all add: round_ok_def)
  from dispatch_loop_stop(2)[OF nr "0.prems"] gt have "t = []" by simp
  moreover have "\<exists>m. stores [] = map (\<lambda>j. (unat (ready_wait env j), of_nat j)) [it..<it + m] \<and> (m = 0 \<or> it + m \<le> Suc MAX_ITERATIONS)"
    by (intro exI[of _ 0]) simp
  ultimately show ?case by simp
next
  case (Suc n)
  then have le: "it \<le> MAX_ITERATIONS" by simp
  show ?case
  proof (cases "round_ok env nt a it")
    case False
    note st = dispatch_loop_stop[OF False Suc.prems]
    have c: "length (filter is_ready_wait t) \<le> k - it" if "cancel_at env k" "it \<le> k" for k
    proof (cases "k = it")
      case True
      with st(2) that show ?thesis by simp
    next
      case False
      with st(1) that show ?thesis by simp
    qed
    have m: "\<exists>m. stores t = map (\<lambda>j. (unat (ready_wait env j), of_nat j)) [it..<it + m] \<and> (m = 0 \<or> it + m \<le> Suc MAX_ITERATIONS)"
      using st(4)
    proof
      assume "stores t = []"
      then show ?thesis by (intro exI[of _ 0]) simp
    next
      assume "stores t = [(unat (ready_wait env it), of_nat it)] \<and> it \<le> MAX_ITERATIONS"
      then show ?thesis by (intro exI[of _ 1]) simp
    qed
    from st(1) le have "length (filter is_ready_wait t) \<le> Suc MAX_ITERATIONS - it" by simp
    with c m st(3) st(5) show ?thesis by blast
  next
    case True
    let ?a = "stored a (unat (ready_wait env it)) (of_nat it)"
    obtain td' t' f' where r: "dispatch_loop env nt ?a (it + 1) = (td', t', f')"
      by (cases "dispatch_loop env nt ?a (it + 1)") auto
    have n: "n = Suc MAX_ITERATIONS - (it + 1)" using Suc.hyps(2) by simp
    note ih = Suc.hyps(1)[OF n r]
    note ih1 = ih[THEN conjunct1]
    note ih2 = ih[THEN conjunct2, THEN conjunct1]
    note ih3 = ih[THEN conjunct2, THEN conjunct2, THEN conjunct1]
    note ih4 = ih[THEN conjunct2, THEN conjunct2, THEN conjunct2, THEN conjunct1]
    note ih5 = ih[THEN conjunct2, THEN conjunct2, THEN conjunct2, THEN conjunct2]
    from Suc.prems r have t: "t = [WaitForMultipleObjects nt (thread_ready_a a) False WAIT_TIME,
                  Store_thread_data (unat (ready_wait env it)) (of_nat it),
                  SetEvent (data_ready_a a ! unat (ready_wait env it))] @ t'"
      by (simp add: dispatch_loop_go[OF True])
    have nc: "\<not> cancel_at env it" using True by (simp add: round_ok_def)
    have 1: "length (filter is_ready_wait t) \<le> Suc MAX_ITERATIONS - it"
      using ih1 le by (simp add: t)
    have 2: "length (filter is_ready_wait t) \<le> k - it" if "cancel_at env k" "it \<le> k" for k
    proof -
      from that nc have "it + 1 \<le> k" by (cases "k = it") auto
      with ih2 that(1) have "length (filter is_ready_wait t') \<le> k - (it + 1)" by blast
      with \<open>it + 1 \<le> k\<close> show ?thesis by (simp add: t)
    qed
    have 3: "handoffs_ok (data_ready_a a) t"
      using ih3 by (simp add: t stored_def)
    from ih4 obtain m where m: "stores t' = map (\<lambda>j. (unat (ready_wait env j), of_nat j)) [it + 1..<it + 1 + m]"
      "m = 0 \<or> it + 1 + m \<le> Suc MAX_ITERATIONS" by blast
    have u: "[it..<it + Suc m] = it # [it + 1..<it + 1 + m]"
      by (simp add: upt_conv_Cons)
    have sv: "stores t = (unat (ready_wait env it), of_nat it) # stores t'"
      by (simp add: t)
    have b: "it + Suc m \<le> Suc MAX_ITERATIONS"
      using m(2) le by auto
    have 4: "\<exists>m. stores t = map (\<lambda>j. (unat (ready_wait env j), of_nat j)) [it..<it + m] \<and> (m = 0 \<or> it + m \<le> Suc MAX_ITERATIONS)"
      using b by (intro exI[of _ "Suc m"]) (simp only: sv m(1) u list.map, simp)
    have 5: "\<forall>x \<in> set t. dispatch_action nt (thread_ready_a a) x"
      using ih5 by (auto simp: t stored_def dispatch_action_def)
    from 1 2 3 4 5 show ?thesis by blast
  qed
qed


lemma cleanup_loop_trace:
  "cleanup_loop n i tt dr tr = (t, f) \<Longrightarrow> \<forall>x \<in> set t. teardown_action x"
proof (induction "n - i" arbitrary: i t f)
  case 0
  then show ?case by (subst (asm) cleanup_loop.simps) simp
next
  case (Suc k)
  obtain t' f' where r: "cleanup_loop n (i + 1) tt dr tr = (t', f')"
    by (cases "cleanup_loop n (i + 1) tt dr tr") auto
  have "k = n - (i + 1)" using Suc.hyps(2) by simp
  from Suc.hyps(1)[OF this r] have ih: "\<forall>x \<in> set t'. teardown_action x" .
  from Suc.prems r ih show ?case
    by (subst (asm) cleanup_loop.simps)
      (auto simp: Let_def split: if_splits sum.splits)
qed

lemma cleanup_loop_allocated:
  "i \<le> n \<Longrightarrow> n \<le> length tt \<Longrightarrow> n \<le> length dr \<Longrightarrow> n \<le> length tr \<Longrightarrow>
   cleanup_loop n i (Some tt) (Some dr) (Some tr) =
     (concat (map (release tt dr tr) [i..<n]), Next)"
proof (induction "n - i" arbitrary: i)
  case 0
  then show ?case by (subst cleanup_loop.simps) simp
next
  case (Suc k)
  then have lt: "i < n" and k: "k = n - (i + 1)" by simp_all
  have ih: "cleanup_loop n (Suc i) (Some tt) (Some dr) (Some tr) =
     (concat (map (release tt dr tr) [Suc i..<n]), Next)"
    using Suc.hyps(1)[OF k] lt Suc.prems by simp
  have u: "[i..<n] = i # [Suc i..<n]"
    using lt by (simp add: upt_conv_Cons)
  show ?case
    using lt Suc.prems
    by (subst cleanup_loop.simps) (simp add: ih u array_read_def release_def Let_def)
qed

lemma out_label_trace:
  "out_label n tt dr tr r = (t, f) \<Longrightarrow> \<forall>x \<in> set t. teardown_action x"
proof -
  assume a: "out_label n tt dr tr r = (t, f)"
  obtain t' f' where c: "cleanup_loop n 0 tt dr tr = (t', f')"
    by (cases "cleanup_loop n 0 tt dr tr") auto
  from cleanup_loop_trace[OF c] a c show ?thesis
    by (auto simp: out_label_def split: flow.splits)
qed

lemma out_arrays_eq:
  assumes "length (task_thread a) = n" and "length (data_ready_a a) = n"
    and "length (thread_ready_a a) = n"
  shows "out_arrays n a r =
           (concat (map (release (task_thread a) (data_ready_a a) (thread_ready_a a)) [0..<n])
            @ [Free A_data_ready, Free A_thread_ready, Free A_task_thread, Free A_thread_data],
            Exit r)"
  using assms by (simp add: out_arrays_def out_label_def cleanup_loop_allocated)

lemma out_arrays_trace:
  "out_arrays n a r = (t, f) \<Longrightarrow> \<forall>x \<in> set t. teardown_action x"
  unfolding out_arrays_def by (rule out_label_trace)

section \<open>The shape of a run of ControlThread\<close>

lemma stores_append: "stores (s @ t) = stores s @ stores t"
  by (induction s rule: stores.induct) simp_all

lemma stores_setup: "\<forall>x \<in> set t. setup_action x \<Longrightarrow> stores t = []"
  by (induction t rule: stores.induct) simp_all

lemma stores_teardown: "\<forall>x \<in> set t. teardown_action x \<Longrightarrow> stores t = []"
  by (induction t rule: stores.induct) simp_all

lemma stores_SetEvents: "stores (map (\<lambda>i. SetEvent (f i)) xs) = []"
  by (induction xs) simp_all

lemma stores_shutdown: "stores (shutdown_broadcast nt a) = []"
  by (simp add: shutdown_broadcast_def stores_append stores_SetEvents)

lemma length_fresh_arrays [simp]:
  "length (task_thread (fresh_arrays n)) = n"
  "length (data_ready_a (fresh_arrays n)) = n"
  "length (thread_ready_a (fresh_arrays n)) = n"
  "length (thread_data_a (fresh_arrays n)) = n"
  by (simp_all add: fresh_arrays_def)

text \<open>The possible shapes of a run with all four arrays allocated.\<close>

lemma control_run_shape:
  assumes "control_run env nt ta a0 = (t, slots, r)"
  obtains
    (setup_undefined) a1 t1 f where "create_workers env ta (unat nt) 0 a0 = (a1, t1, Undefined f)"
      "t = Printf ''Creating %d threads...\<newline>'' [nt] # t1" "r = f"
  | (setup_failed) a1 t1 tc where "create_workers env ta (unat nt) 0 a0 = (a1, t1, Goto_out)"
      "out_arrays (unat nt) a1 1 = (tc, r)"
      "t = Printf ''Creating %d threads...\<newline>'' [nt] # t1 @ tc"
  | (dispatch_undefined) a1 t1 t2 f where "create_workers env ta (unat nt) 0 a0 = (a1, t1, Next)"
      "dispatch_loop env nt a1 1 = (slots, t2, Undefined f)"
      "t = Printf ''Creating %d threads...\<newline>'' [nt] # t1 @ t2" "r = f"
  | (dispatch_failed) a1 t1 t2 tc where "create_workers env ta (unat nt) 0 a0 = (a1, t1, Next)"
      "dispatch_loop env nt a1 1 = (slots, t2, Goto_out)"
      "out_arrays (unat nt) a1 1 = (tc, r)"
      "t = Printf ''Creating %d threads...\<newline>'' [nt] # t1 @ t2 @ tc"
  | (joined) a1 t1 td t2 tc where "create_workers env ta (unat nt) 0 a0 = (a1, t1, Next)"
      "dispatch_loop env nt a1 1 = (td, t2, Next)" "join_wait env = WAIT_OBJECT_0"
      "out_arrays (unat nt) (a1\<lparr>task_thread := replicate (unat nt) NULL\<rparr>) 0 = (tc, r)"
      "t = Printf ''Creating %d threads...\<newline>'' [nt] # t1 @ t2 @ shutdown_broadcast nt a1
             @ Memset_task_thread # tc"
      "slots = replicate (unat nt) 0"
  | (join_failed) a1 t1 td t2 tc where "create_workers env ta (unat nt) 0 a0 = (a1, t1, Next)"
      "dispatch_loop env nt a1 1 = (td, t2, Next)" "join_wait env \<noteq> WAIT_OBJECT_0"
      "out_arrays (unat nt) a1 1 = (tc, r)"
      "t = Printf ''Creating %d threads...\<newline>'' [nt] # t1 @ t2 @ shutdown_broadcast nt a1
             @ Printf ''Threads did not finalize\<newline>'' [] # tc"
      "slots = replicate (unat nt) 0"
proof -
  obtain a1 t1 f1 where c: "create_workers env ta (unat nt) 0 a0 = (a1, t1, f1)"
    by (cases "create_workers env ta (unat nt) 0 a0") auto
  obtain td t2 f2 where d: "dispatch_loop env nt a1 1 = (td, t2, f2)"
    by (cases "dispatch_loop env nt a1 1") auto
  obtain tc rc where o: "out_arrays (unat nt) a1 1 = (tc, rc)"
    by (cases "out_arrays (unat nt) a1 1") auto
  obtain tc0 rc0 where o0:
    "out_arrays (unat nt) (a1\<lparr>task_thread := replicate (unat nt) NULL\<rparr>) 0 = (tc0, rc0)"
    by (cases "out_arrays (unat nt) (a1\<lparr>task_thread := replicate (unat nt) NULL\<rparr>) 0") auto
  show thesis
  proof (cases f1)
    case (Undefined f)
    with assms c show ?thesis
      by (intro setup_undefined[of a1 t1 f]) (auto simp: control_run_def Let_def)
  next
    case Goto_out
    with assms c o show ?thesis
      by (intro setup_failed[of a1 t1 tc]) (auto simp: control_run_def Let_def)
  next
    case Next
    show ?thesis
    proof (cases f2)
      case (Undefined f)
      with assms c d Next show ?thesis
        by (intro dispatch_undefined[of a1 t1 t2 f]) (auto simp: control_run_def Let_def)
    next
      case Goto_out
      with assms c d o Next show ?thesis
        by (intro dispatch_failed[of a1 t1 t2 tc]) (auto simp: control_run_def Let_def)
    next
      case n2: Next
      show ?thesis
      proof (cases "join_wait env = WAIT_OBJECT_0")
        case True
        with assms c d o0 Next n2 show ?thesis
          by (intro joined[of a1 t1 td t2 tc0]) (auto simp: control_run_def Let_def)
      next
        case False
        with assms c d o Next n2 show ?thesis
          by (intro join_failed[of a1 t1 td t2 tc]) (auto simp: control_run_def Let_def)
      qed
    qed
  qed
qed

lemma ControlThread_allocated:
  assumes "num_threads g \<noteq> 0" and "thread_affinity g = Some ta" and "all_allocated env"
  shows "ControlThread env g =
           (case control_run env (num_threads g) ta (fresh_arrays (unat (num_threads g))) of
              (t, slots, r) \<Rightarrow> (allocs @ t, Some slots, r))"
  using assms
  by (simp add: ControlThread_def all_allocated_def fresh_arrays_def allocs_def Let_def)

lemma ControlThread_shape:
  assumes "ControlThread env g = (t, slots, r)"
  obtains
    (not_configured) "num_threads g = 0 \<or> thread_affinity g = None" "t = []" "r = Exit 1"
  | (alloc_failed) tc where "\<not> all_allocated env"
      "t = allocs @ Fprintf_stderr ''Alloc error.\<newline>'' # tc"
      "\<forall>x \<in> set tc. teardown_action x"
  | (allocated) ta t' sl where "num_threads g \<noteq> 0" "thread_affinity g = Some ta"
      "all_allocated env"
      "control_run env (num_threads g) ta (fresh_arrays (unat (num_threads g))) = (t', sl, r)"
      "t = allocs @ t'" "slots = Some sl"
proof (cases "num_threads g = 0 \<or> thread_affinity g = None")
  case True
  with assms show ?thesis
    by (intro not_configured) (auto simp: ControlThread_def split: option.splits)
next
  case False
  then obtain ta where ta: "thread_affinity g = Some ta" and nz: "num_threads g \<noteq> 0"
    by auto
  show ?thesis
  proof (cases "all_allocated env")
    case True
    obtain t' sl r' where
      c: "control_run env (num_threads g) ta (fresh_arrays (unat (num_threads g))) = (t', sl, r')"
      by (cases "control_run env (num_threads g) ta (fresh_arrays (unat (num_threads g)))") auto
    with assms ControlThread_allocated[OF nz ta True] show ?thesis
      by (intro allocated[of ta t' sl]) (auto simp: nz ta True)
  next
    case False
    let ?n = "unat (num_threads g)"
    let ?tt = "if calloc_task_thread_ok env then Some (replicate ?n NULL) else None"
    let ?dr = "if calloc_data_ready_ok env then Some (replicate ?n NULL) else None"
    let ?tr = "if calloc_thread_ready_ok env then Some (replicate ?n NULL) else None"
    obtain tc rc where o: "out_label ?n ?tt ?dr ?tr 1 = (tc, rc)"
      by (cases "out_label ?n ?tt ?dr ?tr 1") auto
    from assms False nz ta o have "t = allocs @ Fprintf_stderr ''Alloc error.\<newline>'' # tc"
      by (auto simp: ControlThread_def all_allocated_def allocs_def Let_def split: if_splits)
    with False out_label_trace[OF o] show ?thesis
      by (intro alloc_failed[of tc]) auto
  qed
qed

lemma release_created:
  assumes "creates env ta n i"
  shows "release (map (new_task_thread env) [0..<n]) (map (new_data_ready env) [0..<n])
           (map (new_thread_ready env) [0..<n]) i =
         [TerminateThread (new_task_thread env i) 1, CloseHandle (new_data_ready env i),
          CloseHandle (new_thread_ready env i)]"
  using assms by (simp add: release_def creates_def)

lemma out_arrays_created:
  assumes "create_workers env ta n 0 (fresh_arrays n) = (a1, t1, Next)"
  shows "out_arrays n a1 r = (forced_cleanup env n, Exit r)"
proof -
  from create_workers_Next[OF assms] have
    a: "task_thread a1 = map (new_task_thread env) [0..<n]"
       "data_ready_a a1 = map (new_data_ready env) [0..<n]"
       "thread_ready_a a1 = map (new_thread_ready env) [0..<n]"
    and c: "\<forall>j<n. creates env ta n j"
    by simp_all
  have mp: "map (release (task_thread a1) (data_ready_a a1) (thread_ready_a a1)) [0..<n] =
        map (\<lambda>i. [TerminateThread (new_task_thread env i) 1, CloseHandle (new_data_ready env i),
                   CloseHandle (new_thread_ready env i)]) [0..<n]"
    unfolding a by (rule map_cong) (use c in \<open>auto simp: release_created\<close>)
  have "out_arrays n a1 r =
          (concat (map (release (task_thread a1) (data_ready_a a1) (thread_ready_a a1)) [0..<n])
           @ [Free A_data_ready, Free A_thread_ready, Free A_task_thread, Free A_thread_data],
           Exit r)"
    by (rule out_arrays_eq) (simp_all add: a)
  then show ?thesis
    unfolding mp forced_cleanup_def .
qed

lemma not_setup_action:
  "setup_action x \<Longrightarrow> x \<noteq> Memset_thread_data \<and> x \<noteq> Sleep d \<and> \<not> is_wait x"
  by (cases x) simp_all

lemma not_dispatch_action:
  "dispatch_action nt trs x \<Longrightarrow>
     x \<noteq> Memset_thread_data \<and> x \<noteq> Sleep d \<and> x \<noteq> WaitForMultipleObjects n hs True w"
  by (auto simp: dispatch_action_def)

lemma not_teardown_action:
  "teardown_action x \<Longrightarrow> x \<noteq> Memset_thread_data \<and> x \<noteq> Sleep d \<and> \<not> is_wait x"
  by (cases x) simp_all

lemma forced_cleanup_teardown: "\<forall>x \<in> set (forced_cleanup env n). teardown_action x"
  by (auto simp: forced_cleanup_def)

lemma dispatch_loop_stores:
  assumes "dispatch_loop env nt a 1 = (td, t, f)"
  shows "\<exists>m \<le> MAX_ITERATIONS.
           stores t = map (\<lambda>j. (unat (ready_wait env j), of_nat j)) [1..<Suc m]"
proof -
  from dispatch_loop_props[OF assms]
  obtain m where m: "stores t = map (\<lambda>j. (unat (ready_wait env j), of_nat j)) [1..<1 + m]"
    "m = 0 \<or> 1 + m \<le> Suc MAX_ITERATIONS" by blast
  then show ?thesis
    by (intro exI[of _ m]) auto
qed

lemma stores_allocs: "stores allocs = []"
  by (simp add: allocs_def)

lemma control_run_stores:
  assumes "control_run env nt ta a0 = (t, slots, r)"
  shows "\<exists>m \<le> MAX_ITERATIONS.
           stores t = map (\<lambda>j. (unat (ready_wait env j), of_nat j)) [1..<Suc m]"
proof -
  have none: ?thesis if "stores t = []"
    using that by (intro exI[of _ 0]) simp
  have some: ?thesis if "dispatch_loop env nt a1 1 = (td, t2, f)" "stores t = stores t2"
    for a1 td t2 f
    using dispatch_loop_stores[OF that(1)] that(2) by simp
  from assms show ?thesis
  proof (cases rule: control_run_shape)
    case (setup_undefined a1 t1 f)
    with create_workers_frame[OF setup_undefined(1)] show ?thesis
      by (intro none) (simp add: stores_setup)
  next
    case (setup_failed a1 t1 tc)
    with create_workers_frame[OF setup_failed(1)] out_arrays_trace[OF setup_failed(2)]
    show ?thesis
      by (intro none) (simp add: stores_append stores_setup stores_teardown)
  next
    case (dispatch_undefined a1 t1 t2 f)
    with create_workers_frame[OF dispatch_undefined(1)] show ?thesis
      by (intro some[OF dispatch_undefined(2)]) (simp add: stores_append stores_setup)
  next
    case (dispatch_failed a1 t1 t2 tc)
    with create_workers_frame[OF dispatch_failed(1)] out_arrays_trace[OF dispatch_failed(3)]
    show ?thesis
      by (intro some[OF dispatch_failed(2)])
        (simp add: stores_append stores_setup stores_teardown)
  next
    case (joined a1 t1 td t2 tc)
    with create_workers_frame[OF joined(1)] out_arrays_trace[OF joined(4)]
    show ?thesis
      by (intro some[OF joined(2)])
        (simp add: stores_append stores_setup stores_teardown stores_shutdown)
  next
    case (join_failed a1 t1 td t2 tc)
    with create_workers_frame[OF join_failed(1)] out_arrays_trace[OF join_failed(4)]
    show ?thesis
      by (intro some[OF join_failed(2)])
        (simp add: stores_append stores_setup stores_teardown stores_shutdown)
  qed
qed

lemma ControlThread_stores:
  assumes "ControlThread env g = (t, slots, r)"
  shows "\<exists>m \<le> MAX_ITERATIONS.
           stores t = map (\<lambda>j. (unat (ready_wait env j), of_nat j)) [1..<Suc m]"
  using assms
proof (cases rule: ControlThread_shape)
  case not_configured
  then show ?thesis by (intro exI[of _ 0]) simp
next
  case (alloc_failed tc)
  then show ?thesis
    by (intro exI[of _ 0]) (simp add: stores_append stores_allocs stores_teardown)
next
  case (allocated ta t' sl)
  with control_run_stores[OF allocated(4)] show ?thesis
    by (simp add: stores_append stores_allocs)
qed

section \<open>Blocking calls\<close>

declare dummy_loop.simps [simp del]

lemma dummy_loop_sleeps: "\<forall>x \<in> set (dummy_loop c j). x = Sleep 100"
proof (induction c j rule: dummy_loop.induct)
  case (1 cancel j)
  then show ?case
    by (subst dummy_loop.simps) auto
qed

lemma worker_body_waits:
  assumes "worker_body g i e = (t, r)" and "x \<in> set t"
  shows "(is_wait x \<longrightarrow>
            (\<exists>dr. array_read (data_ready g) (unat i) = Inr dr \<and>
                  x = WaitForSingleObject dr WAIT_TIME)) \<and>
         (\<forall>d. x = Sleep d \<longrightarrow> d = 100)"
  using assms
  by (auto simp: worker_body_def split: sum.splits if_splits
      dest!: dummy_loop_sleeps[THEN bspec])

lemma ParallelTaskThread_waits:
  assumes "ParallelTaskThread g i es = (t, r)" and "x \<in> set t"
  shows "(is_wait x \<longrightarrow>
            (\<exists>dr. array_read (data_ready g) (unat i) = Inr dr \<and>
                  x = WaitForSingleObject dr WAIT_TIME)) \<and>
         (\<forall>d. x = Sleep d \<longrightarrow> d = 100)"
  using assms
proof (induction es arbitrary: t r)
  case Nil
  then show ?case by simp
next
  case (Cons e es)
  obtain tb rb where b: "worker_body g i e = (tb, rb)"
    by (cases "worker_body g i e") auto
  obtain t' r' where p: "ParallelTaskThread g i es = (t', r')"
    by (cases "ParallelTaskThread g i es") auto
  from Cons.prems b p have "x \<in> set tb \<or> x \<in> set t'"
    by (auto split: option.splits)
  then show ?case
  proof
    assume "x \<in> set tb"
    from worker_body_waits[OF b this] show ?thesis .
  next
    assume "x \<in> set t'"
    from Cons.IH[OF p this] show ?thesis .
  qed
qed

lemma blocking_ok_setup: "setup_action x \<Longrightarrow> control_blocking_ok env nt x"
  by (cases x) (simp_all add: control_blocking_ok_def)

lemma blocking_ok_teardown: "teardown_action x \<Longrightarrow> control_blocking_ok env nt x"
  by (cases x) (simp_all add: control_blocking_ok_def)

lemma blocking_ok_dispatch:
  "dispatch_action nt (map (new_thread_ready env) [0..<unat nt]) x \<Longrightarrow>
     control_blocking_ok env nt x"
  by (auto simp: dispatch_action_def control_blocking_ok_def)

lemma blocking_ok_shutdown:
  assumes "task_thread a = map (new_task_thread env) [0..<unat nt]"
    and "x \<in> set (shutdown_broadcast nt a)"
  shows "control_blocking_ok env nt x"
  using assms by (auto simp: shutdown_broadcast_def control_blocking_ok_def)

lemma blocking_ok_misc:
  "control_blocking_ok env nt (Printf f xs)"
  "control_blocking_ok env nt (Fprintf_stderr s)"
  "control_blocking_ok env nt (Calloc p)"
  "control_blocking_ok env nt Memset_task_thread"
  by (simp_all add: control_blocking_ok_def)

lemma control_run_blocking:
  assumes "control_run env nt ta (fresh_arrays (unat nt)) = (t, slots, r)"
  shows "\<forall>x \<in> set t. control_blocking_ok env nt x"
proof -
  let ?n = "unat nt"
  have su: "\<forall>x \<in> set t1. control_blocking_ok env nt x"
    if "create_workers env ta ?n 0 (fresh_arrays ?n) = (a1, t1, f)" for a1 t1 f
    using create_workers_frame[OF that] by (auto intro: blocking_ok_setup)
  have out: "\<forall>x \<in> set tc. control_blocking_ok env nt x"
    if "out_arrays ?n a rr = (tc, r')" for a rr tc r'
    using out_arrays_trace[OF that] by (auto intro: blocking_ok_teardown)
  have dispatch: "\<forall>x \<in> set t2. control_blocking_ok env nt x"
    if "create_workers env ta ?n 0 (fresh_arrays ?n) = (a1, t1, Next)"
      "dispatch_loop env nt a1 1 = (td, t2, f)" for a1 t1 td t2 f
  proof -
    from create_workers_Next[OF that(1)]
    have "thread_ready_a a1 = map (new_thread_ready env) [0..<?n]" by simp
    with dispatch_loop_props[OF that(2)] show ?thesis
      by (auto intro: blocking_ok_dispatch)
  qed
  have shut: "\<forall>x \<in> set (shutdown_broadcast nt a1). control_blocking_ok env nt x"
    if "create_workers env ta ?n 0 (fresh_arrays ?n) = (a1, t1, Next)" for a1 t1
  proof -
    from create_workers_Next[OF that]
    have "task_thread a1 = map (new_task_thread env) [0..<?n]" by simp
    then show ?thesis by (auto intro: blocking_ok_shutdown)
  qed
  from assms show ?thesis
  proof (cases rule: control_run_shape)
    case (setup_undefined a1 t1 f)
    with su[OF setup_undefined(1)] show ?thesis
      by (auto simp: blocking_ok_misc)
  next
    case (setup_failed a1 t1 tc)
    with su[OF setup_failed(1)] out[OF setup_failed(2)] show ?thesis
      by (auto simp: blocking_ok_misc)
  next
    case (dispatch_undefined a1 t1 t2 f)
    with su[OF dispatch_undefined(1)] dispatch[OF dispatch_undefined(1,2)] show ?thesis
      by (auto simp: blocking_ok_misc)
  next
    case (dispatch_failed a1 t1 t2 tc)
    with su[OF dispatch_failed(1)] dispatch[OF dispatch_failed(1,2)]
      out[OF dispatch_failed(3)] show ?thesis
      by (auto simp: blocking_ok_misc)
  next
    case (joined a1 t1 td t2 tc)
    with su[OF joined(1)] dispatch[OF joined(1,2)] out[OF joined(4)] shut[OF joined(1)]
    show ?thesis
      by (auto simp: blocking_ok_misc)
  next
    case (join_failed a1 t1 td t2 tc)
    with su[OF join_failed(1)] dispatch[OF join_failed(1,2)] out[OF join_failed(4)]
      shut[OF join_failed(1)]
    show ?thesis
      by (auto simp: blocking_ok_misc)
  qed
qed

lemma ControlThread_blocking:
  assumes "ControlThread env g = (t, slots, r)"
  shows "\<forall>x \<in> set t. control_blocking_ok env (num_threads g) x"
  using assms
proof (cases rule: ControlThread_shape)
  case not_configured
  then show ?thesis by simp
next
  case (alloc_failed tc)
  then show ?thesis
    by (auto simp: allocs_def blocking_ok_misc intro: blocking_ok_teardown)
next
  case (allocated ta t' sl)
  with control_run_blocking[OF allocated(4)] show ?thesis
    by (auto simp: allocs_def blocking_ok_misc)
qed

section \<open>The sentinel is written after the work values\<close>

lemma no_memset_stores:
  assumes "\<forall>x \<in> set t. x \<noteq> Memset_thread_data"
  shows "stores (dropWhile (\<lambda>x. x \<noteq> Memset_thread_data) t) = []"
proof -
  from assms have "dropWhile (\<lambda>x. x \<noteq> Memset_thread_data) t = []"
    by (simp only: dropWhile_eq_Nil_conv)
  then show ?thesis by (simp only: stores.simps)
qed

lemma no_memset_setup: "\<forall>x \<in> set t. setup_action x \<Longrightarrow> \<forall>x \<in> set t. x \<noteq> Memset_thread_data"
  by (auto dest: not_setup_action)

lemma no_memset_teardown:
  "\<forall>x \<in> set t. teardown_action x \<Longrightarrow> \<forall>x \<in> set t. x \<noteq> Memset_thread_data"
  by (auto dest: not_teardown_action)

lemma no_memset_dispatch:
  "\<forall>x \<in> set t. dispatch_action nt trs x \<Longrightarrow> \<forall>x \<in> set t. x \<noteq> Memset_thread_data"
  by (auto dest: not_dispatch_action)

lemma stores_after_memset_shutdown:
  assumes "\<forall>x \<in> set pre. x \<noteq> Memset_thread_data" and "stores post = []"
  shows "stores (dropWhile (\<lambda>x. x \<noteq> Memset_thread_data)
           (pre @ shutdown_broadcast nt a @ post)) = []"
proof -
  have "pre @ shutdown_broadcast nt a @ post =
        (pre @ [Sleep 250]) @ Memset_thread_data #
          (map (\<lambda>i. SetEvent (data_ready_a a ! i)) [0..<unat nt]
           @ [WaitForMultipleObjects nt (task_thread a) True WAIT_TIME] @ post)"
    by (simp add: shutdown_broadcast_def)
  moreover have "\<forall>x \<in> set (pre @ [Sleep 250]). x \<noteq> Memset_thread_data"
    using assms(1) by simp
  ultimately have "dropWhile (\<lambda>x. x \<noteq> Memset_thread_data) (pre @ shutdown_broadcast nt a @ post) =
        Memset_thread_data #
          (map (\<lambda>i. SetEvent (data_ready_a a ! i)) [0..<unat nt]
           @ [WaitForMultipleObjects nt (task_thread a) True WAIT_TIME] @ post)"
    by (simp only: dropWhile_append2) simp
  then show ?thesis
    by (simp add: stores_append stores_SetEvents assms(2))
qed

lemma control_run_after_memset:
  assumes "control_run env nt ta a0 = (t, slots, r)"
    and that: "\<forall>x \<in> set pre0. x \<noteq> Memset_thread_data"
  shows "stores (dropWhile (\<lambda>x. x \<noteq> Memset_thread_data) (pre0 @ t)) = []"
  using assms(1)
proof (cases rule: control_run_shape)
  case (setup_undefined a1 t1 f)
  with create_workers_frame[OF setup_undefined(1)] that
  have "\<forall>x \<in> set (pre0 @ t). x \<noteq> Memset_thread_data"
    by (auto dest: not_setup_action)
  then show ?thesis by (rule no_memset_stores)
next
  case (setup_failed a1 t1 tc)
  with create_workers_frame[OF setup_failed(1)] out_arrays_trace[OF setup_failed(2)] that
  have "\<forall>x \<in> set (pre0 @ t). x \<noteq> Memset_thread_data"
    by (auto dest: not_setup_action not_teardown_action)
  then show ?thesis by (rule no_memset_stores)
next
  case (dispatch_undefined a1 t1 t2 f)
  with create_workers_frame[OF dispatch_undefined(1)]
    dispatch_loop_props[OF dispatch_undefined(2)] that
  have "\<forall>x \<in> set (pre0 @ t). x \<noteq> Memset_thread_data"
    by (auto dest: not_setup_action not_dispatch_action)
  then show ?thesis by (rule no_memset_stores)
next
  case (dispatch_failed a1 t1 t2 tc)
  with create_workers_frame[OF dispatch_failed(1)]
    dispatch_loop_props[OF dispatch_failed(2)] out_arrays_trace[OF dispatch_failed(3)] that
  have "\<forall>x \<in> set (pre0 @ t). x \<noteq> Memset_thread_data"
    by (auto dest: not_setup_action not_dispatch_action not_teardown_action)
  then show ?thesis by (rule no_memset_stores)
next
  case (joined a1 t1 td t2 tc)
  let ?pre = "pre0 @ Printf ''Creating %d threads...\<newline>'' [nt] # t1 @ t2"
  have p: "\<forall>x \<in> set ?pre. x \<noteq> Memset_thread_data"
    using create_workers_frame[OF joined(1)] dispatch_loop_props[OF joined(2)] that
    by (auto dest: not_setup_action not_dispatch_action)
  have q: "stores (Memset_task_thread # tc) = []"
    using out_arrays_trace[OF joined(4)] by (simp add: stores_teardown)
  have "pre0 @ t = ?pre @ shutdown_broadcast nt a1 @ Memset_task_thread # tc"
    by (simp add: joined(5))
  then show ?thesis
    using stores_after_memset_shutdown[OF p q] by simp
next
  case (join_failed a1 t1 td t2 tc)
  let ?pre = "pre0 @ Printf ''Creating %d threads...\<newline>'' [nt] # t1 @ t2"
  have p: "\<forall>x \<in> set ?pre. x \<noteq> Memset_thread_data"
    using create_workers_frame[OF join_failed(1)] dispatch_loop_props[OF join_failed(2)] that
    by (auto dest: not_setup_action not_dispatch_action)
  have q: "stores (Printf ''Threads did not finalize\<newline>'' [] # tc) = []"
    using out_arrays_trace[OF join_failed(4)] by (simp add: stores_teardown)
  have "pre0 @ t = ?pre @ shutdown_broadcast nt a1
          @ Printf ''Threads did not finalize\<newline>'' [] # tc"
    by (simp add: join_failed(5))
  then show ?thesis
    using stores_after_memset_shutdown[OF p q] by simp
qed

lemma ControlThread_after_memset:
  assumes "ControlThread env g = (t, slots, r)"
  shows "stores (dropWhile (\<lambda>x. x \<noteq> Memset_thread_data) t) = []"
  using assms
proof (cases rule: ControlThread_shape)
  case not_configured
  then show ?thesis by simp
next
  case (alloc_failed tc)
  then have "\<forall>x \<in> set t. x \<noteq> Memset_thread_data"
    by (auto simp: allocs_def dest: not_teardown_action)
  then show ?thesis by (rule no_memset_stores)
next
  case (allocated ta t' sl)
  have "\<forall>x \<in> set allocs. x \<noteq> Memset_thread_data"
    by (simp add: allocs_def)
  from control_run_after_memset[OF allocated(4) this] allocated(5) show ?thesis
    by simp
qed

lemma round_number_word:
  assumes "1 \<le> j" and "j \<le> MAX_ITERATIONS"
  shows "(of_nat j :: dword) \<noteq> 0 \<and> 1 \<le> unat (of_nat j :: dword) \<and>
         unat (of_nat j :: dword) \<le> MAX_ITERATIONS"
proof -
  have "j < 2 ^ 32" using assms(2) by (simp add: MAX_ITERATIONS_def)
  then have u: "unat (of_nat j :: dword) = j"
    by (simp add: unat_of_nat)
  then have "(of_nat j :: dword) \<noteq> 0"
    using assms(1) by (metis unat_0 not_one_le_zero)
  with u assms show ?thesis by simp
qed

section \<open>A run without failures\<close>

lemma create_workers_all:
  "\<forall>j. i \<le> j \<and> j < n \<longrightarrow> creates env ta n j \<Longrightarrow>
   \<exists>a'. create_workers env ta n i a = (a', concat (map (worker_setup env ta) [i..<n]), Next)"
proof (induction "n - i" arbitrary: i a)
  case 0
  then have "\<not> i < n" by simp
  then show ?case
    by (subst create_workers.simps) simp
next
  case (Suc k)
  then have lt: "i < n" and c: "creates env ta n i" by simp_all
  have k: "k = n - (i + 1)" using Suc.hyps(2) by simp
  from Suc.hyps(1)[OF k, of "created env i a"] Suc.prems
  obtain a' where a': "create_workers env ta n (i + 1) (created env i a) =
      (a', concat (map (worker_setup env ta) [i + 1..<n]), Next)"
    by auto
  have u: "[i..<n] = i # [i + 1..<n]"
    using lt by (simp add: upt_conv_Cons)
  show ?case
    by (intro exI[of _ a'])
      (simp only: create_workers_go[OF c] a' u, simp add: worker_setup_def)
qed

lemma dispatch_loop_clean:
  assumes "length (thread_data_a a) = unat nt" and "length (data_ready_a a) = unat nt"
    and "\<forall>j. it \<le> j \<and> j < it + k \<longrightarrow> clean_round env nt j"
    and "it + k \<le> Suc MAX_ITERATIONS"
    and "it + k = Suc MAX_ITERATIONS \<or> cancel_at env (it + k)"
  shows "\<exists>td. dispatch_loop env nt a it =
           (td,
            concat (map (\<lambda>j. [WaitForMultipleObjects nt (thread_ready_a a) False WAIT_TIME,
                               Store_thread_data (unat (ready_wait env j)) (of_nat j),
                               SetEvent (data_ready_a a ! unat (ready_wait env j))])
                     [it..<it + k]),
            Next)"
  using assms
proof (induction k arbitrary: it a)
  case 0
  then have "\<not> (it \<le> MAX_ITERATIONS \<and> \<not> cancel_at env it)" by auto
  then show ?case
    by (subst dispatch_loop.simps) auto
next
  case (Suc k)
  have cr: "clean_round env nt it" using Suc.prems(3) by simp
  have le: "it \<le> MAX_ITERATIONS" using Suc.prems(4) by simp
  have lt: "unat (ready_wait env it) < unat nt"
    using cr by (simp add: clean_round_def word_less_nat_alt)
  have ro: "round_ok env nt a it"
    using cr le lt Suc.prems(1,2)
    by (simp add: round_ok_def clean_round_def WAIT_OBJECT_0_def not_le)
  let ?a = "stored a (unat (ready_wait env it)) (of_nat it)"
  have "\<exists>td. dispatch_loop env nt ?a (it + 1) =
           (td,
            concat (map (\<lambda>j. [WaitForMultipleObjects nt (thread_ready_a ?a) False WAIT_TIME,
                               Store_thread_data (unat (ready_wait env j)) (of_nat j),
                               SetEvent (data_ready_a ?a ! unat (ready_wait env j))])
                     [it + 1..<it + 1 + k]),
            Next)"
    using Suc.prems by (intro Suc.IH) (auto simp: stored_def)
  then obtain td where td: "dispatch_loop env nt ?a (it + 1) =
           (td,
            concat (map (\<lambda>j. [WaitForMultipleObjects nt (thread_ready_a a) False WAIT_TIME,
                               Store_thread_data (unat (ready_wait env j)) (of_nat j),
                               SetEvent (data_ready_a a ! unat (ready_wait env j))])
                     [it + 1..<it + 1 + k]),
            Next)"
    by (auto simp: stored_def)
  have u: "[it..<it + Suc k] = it # [it + 1..<it + 1 + k]"
    by (simp add: upt_conv_Cons)
  show ?case
    by (intro exI[of _ td]) (simp only: dispatch_loop_go[OF ro] td u, simp)
qed


lemma out_arrays_joined:
  assumes "create_workers env ta n 0 (fresh_arrays n) = (a1, t1, Next)"
  shows "out_arrays n (a1\<lparr>task_thread := replicate n NULL\<rparr>) r = (graceful_cleanup env n, Exit r)"
proof -
  from create_workers_Next[OF assms] have
    a: "data_ready_a a1 = map (new_data_ready env) [0..<n]"
       "thread_ready_a a1 = map (new_thread_ready env) [0..<n]"
    and c: "\<forall>j<n. creates env ta n j"
    by simp_all
  let ?a = "a1\<lparr>task_thread := replicate n NULL\<rparr>"
  have mp: "map (release (task_thread ?a) (data_ready_a ?a) (thread_ready_a ?a)) [0..<n] =
        map (\<lambda>i. [CloseHandle (new_data_ready env i), CloseHandle (new_thread_ready env i)])
          [0..<n]"
    by (rule map_cong) (use c in \<open>auto simp: a release_def creates_def\<close>)
  have "out_arrays n ?a r =
          (concat (map (release (task_thread ?a) (data_ready_a ?a) (thread_ready_a ?a)) [0..<n])
           @ [Free A_data_ready, Free A_thread_ready, Free A_task_thread, Free A_thread_data],
           Exit r)"
    by (rule out_arrays_eq) (simp_all add: a)
  then show ?thesis
    unfolding mp graceful_cleanup_def .
qed

text \<open>
  A run without failures that makes \<open>k\<close> rounds: every call succeeds, the first \<open>k\<close>
  rounds find a ready worker, and the loop ends after them because the bound is reached
  or cancellation is seen.
\<close>

lemma ControlThread_clean_run:
  assumes "num_threads g \<noteq> 0" and "thread_affinity g = Some ta" and "all_allocated env"
    and "\<forall>i < unat (num_threads g). creates env ta (unat (num_threads g)) i"
    and "k \<le> MAX_ITERATIONS"
    and "\<forall>j. 1 \<le> j \<and> j \<le> k \<longrightarrow> clean_round env (num_threads g) j"
    and "k = MAX_ITERATIONS \<or> cancel_at env (Suc k)"
    and "join_wait env = WAIT_OBJECT_0"
  shows "ControlThread env g =
           (allocs @ Printf ''Creating %d threads...\<newline>'' [num_threads g]
              # concat (map (worker_setup env ta) [0..<unat (num_threads g)])
              @ concat (map (round_trace env (num_threads g)) [1..<Suc k])
              @ [Sleep 250, Memset_thread_data]
              @ map (\<lambda>i. SetEvent (new_data_ready env i)) [0..<unat (num_threads g)]
              @ [WaitForMultipleObjects (num_threads g)
                   (map (new_task_thread env) [0..<unat (num_threads g)]) True WAIT_TIME,
                 Memset_task_thread]
              @ graceful_cleanup env (unat (num_threads g)),
            Some (replicate (unat (num_threads g)) 0), Exit 0)"
proof -
  let ?nt = "num_threads g"
  let ?n = "unat ?nt"
  from create_workers_all[of 0 ?n env ta "fresh_arrays ?n"] assms(4)
  obtain a1 where c: "create_workers env ta ?n 0 (fresh_arrays ?n) =
      (a1, concat (map (worker_setup env ta) [0..<?n]), Next)"
    by auto
  from create_workers_Next[OF c] have
    a: "task_thread a1 = map (new_task_thread env) [0..<?n]"
       "data_ready_a a1 = map (new_data_ready env) [0..<?n]"
       "thread_ready_a a1 = map (new_thread_ready env) [0..<?n]"
    by simp_all
  have td: "length (thread_data_a a1) = ?n"
    using create_workers_frame[OF c] by simp
  have dr: "length (data_ready_a a1) = ?n"
    by (simp add: a)
  have "\<exists>td. dispatch_loop env ?nt a1 1 =
           (td,
            concat (map (\<lambda>j. [WaitForMultipleObjects ?nt (thread_ready_a a1) False WAIT_TIME,
                               Store_thread_data (unat (ready_wait env j)) (of_nat j),
                               SetEvent (data_ready_a a1 ! unat (ready_wait env j))])
                     [1..<1 + k]),
            Next)"
    using assms(5,6,7) by (intro dispatch_loop_clean[OF td dr]) auto
  then obtain td where d0: "dispatch_loop env ?nt a1 1 =
           (td,
            concat (map (\<lambda>j. [WaitForMultipleObjects ?nt (thread_ready_a a1) False WAIT_TIME,
                               Store_thread_data (unat (ready_wait env j)) (of_nat j),
                               SetEvent (data_ready_a a1 ! unat (ready_wait env j))])
                     [1..<1 + k]),
            Next)"
    by blast
  have rt: "map (\<lambda>j. [WaitForMultipleObjects ?nt (thread_ready_a a1) False WAIT_TIME,
                       Store_thread_data (unat (ready_wait env j)) (of_nat j),
                       SetEvent (data_ready_a a1 ! unat (ready_wait env j))]) [1..<1 + k] =
            map (round_trace env ?nt) [1..<Suc k]"
  proof (rule map_cong)
    fix j assume "j \<in> set [1..<Suc k]"
    then have "clean_round env ?nt j" using assms(6) by auto
    then have "unat (ready_wait env j) < ?n"
      by (simp add: clean_round_def word_less_nat_alt)
    then show "[WaitForMultipleObjects ?nt (thread_ready_a a1) False WAIT_TIME,
                       Store_thread_data (unat (ready_wait env j)) (of_nat j),
                       SetEvent (data_ready_a a1 ! unat (ready_wait env j))] =
               round_trace env ?nt j"
      by (simp add: round_trace_def a)
  qed simp
  have d: "dispatch_loop env ?nt a1 (Suc 0) =
             (td, concat (map (round_trace env ?nt) [1..<Suc k]), Next)"
    using d0 unfolding rt by simp
  have sb: "shutdown_broadcast ?nt a1 =
              [Sleep 250, Memset_thread_data]
              @ map (\<lambda>i. SetEvent (new_data_ready env i)) [0..<?n]
              @ [WaitForMultipleObjects ?nt (map (new_task_thread env) [0..<?n]) True WAIT_TIME]"
    by (simp add: shutdown_broadcast_def a cong: map_cong)
  have run: "control_run env ?nt ta (fresh_arrays ?n) =
           (Printf ''Creating %d threads...\<newline>'' [?nt]
              # concat (map (worker_setup env ta) [0..<?n])
              @ concat (map (round_trace env ?nt) [1..<Suc k])
              @ [Sleep 250, Memset_thread_data]
              @ map (\<lambda>i. SetEvent (new_data_ready env i)) [0..<?n]
              @ [WaitForMultipleObjects ?nt (map (new_task_thread env) [0..<?n]) True WAIT_TIME,
                 Memset_task_thread]
              @ graceful_cleanup env ?n,
            replicate ?n 0, Exit 0)"
    by (simp add: control_run_def Let_def c d sb assms(8) out_arrays_joined[OF c])
  show ?thesis
    by (simp add: ControlThread_allocated[OF assms(1,2,3)] run)
qed

text \<open>The two defects in general form.\<close>

lemma ControlThread_alloc_failure:
  assumes "num_threads g \<noteq> 0" and "thread_affinity g = Some ta"
    and "\<not> calloc_task_thread_ok env \<or> \<not> calloc_data_ready_ok env \<or>
         \<not> calloc_thread_ready_ok env"
  shows "snd (snd (ControlThread env g)) = Null_dereference"
proof -
  have "0 < unat (num_threads g)"
    using assms(1) by (simp add: unat_gt_0)
  then show ?thesis
    using assms
    by (auto simp: ControlThread_def out_label_def array_read_def Let_def NULL_def
        cleanup_loop.simps[of _ 0])
qed

lemma main_utf8_status:
  assumes "SetThreadAffinity (planner_env env) initial_globals = (True, g, t)"
    and "new_control_thread env \<noteq> NULL" and "control_wait env = WAIT_OBJECT_0"
    and "ControlThread (controller_env env) g = (tc, slots, Exit rc)"
  shows "main_utf8 env = (Returned 0, Some (tc, slots, Exit rc))"
  using assms by (simp add: main_utf8_def)

section \<open>The claims\<close>

text \<open>
  Claim C1. Whenever the process affinity word has more set bits than the spare count
  (and the platform reports the affinity and the allocation succeeds), \<open>SetThreadAffinity\<close>
  returns \<open>TRUE\<close> and leaves exactly \<open>c - s\<close> masks, where \<open>c\<close> is the number
  of usable cores: mask \<open>i\<close> is the single bit at the \<open>i\<close>-th lowest set position of
  the affinity word, every mask is contained in the affinity word, the positions ascend
  strictly and the masks are pairwise disjoint.
\<close>

theorem SetThreadAffinity_plan:
  assumes "process_affinity env = Some a" and "calloc_affinity_ok env"
    and "unat spare < usable_cores a"
  shows "\<exists>g' masks.
           SetThreadAffinity_spare spare env g = (True, g', [Calloc A_thread_affinity]) \<and>
           unat (num_threads g') = usable_cores a - unat spare \<and>
           thread_affinity g' = Some masks \<and>
           length masks = usable_cores a - unat spare \<and>
           (\<forall>i < length masks.
               masks ! i = 2 ^ (set_bit_positions a ! i) \<and>
               bit a (set_bit_positions a ! i) \<and>
               masks ! i AND a = masks ! i) \<and>
           (\<forall>i j. i < j \<and> j < length masks \<longrightarrow>
               set_bit_positions a ! i < set_bit_positions a ! j \<and>
               masks ! i AND masks ! j = 0)"
proof -
  let ?n = "usable_cores a - unat spare"
  let ?masks = "map (\<lambda>p. 2 ^ p) (take ?n (set_bit_positions a)) :: dword_ptr list"
  note s = SetThreadAffinity_spare_success(1)[OF assms, of g]
    SetThreadAffinity_spare_success(2)[OF assms]
  have len: "length ?masks = ?n"
    by (simp add: usable_cores_def)
  have nth: "?masks ! i = 2 ^ (set_bit_positions a ! i)" if "i < ?n" for i
    using that by (simp add: usable_cores_def)
  have sub: "(2 ^ (set_bit_positions a ! i) :: dword_ptr) AND a = 2 ^ (set_bit_positions a ! i)"
    if "i < ?n" for i
    by (rule bit_eqI) (use set_bit_positions_nth[of i a] that in \<open>auto simp: bit_simps\<close>)
  have asc: "set_bit_positions a ! i < set_bit_positions a ! j" if "i < j" "j < ?n" for i j
    using set_bit_positions_ascending[of i j a] that by simp
  have dis: "?masks ! i AND ?masks ! j = 0" if "i < j" "j < ?n" for i j
    using asc[OF that] that by (simp only: nth single_bits_disjoint less_trans[OF that] ) 
  show ?thesis
    apply (rule exI[of _ "g\<lparr>num_threads := ucast (popcnt64 a) - spare,
              thread_affinity := Some ?masks\<rparr>"])
    apply (rule exI[of _ ?masks])
    apply (intro conjI allI impI)
    subgoal by (rule s(1))
    subgoal using s(2) by simp
    subgoal by simp
    subgoal by (rule len)
    subgoal for i using nth[of i] by (simp only: len)
    subgoal for i using set_bit_positions_nth(1)[of i a] by (simp only: len)
    subgoal for i using nth[of i] sub[of i] by (simp only: len) 
    subgoal for i j using asc[of i j] by (simp only: len) 
    subgoal for i j using dis[of i j] by (simp only: len) 
    done
qed


theorem SetThreadAffinity_plan_witness:
  "process_affinity \<lparr>process_affinity = Some 0xB, calloc_affinity_ok = True\<rparr> = Some 0xB \<and>
   calloc_affinity_ok \<lparr>process_affinity = Some 0xB, calloc_affinity_ok = True\<rparr> \<and>
   unat (1 :: dword) < usable_cores 0xB \<and>
   (\<exists>g'. SetThreadAffinity_spare 1 \<lparr>process_affinity = Some 0xB, calloc_affinity_ok = True\<rparr>
            initial_globals = (True, g', [Calloc A_thread_affinity]) \<and>
         unat (num_threads g') = 2 \<and> thread_affinity g' = Some [1, 2])"
proof -
  have c: "usable_cores 0xB = 3"
    by (simp add: usable_cores_popcnt64 popcnt64_def popcnt_step_def)
  have r: "replicate 2 (0 :: dword_ptr) = [0, 0]"
    by (simp add: numeral_2_eq_2)
  have e: "SetThreadAffinity_spare 1 \<lparr>process_affinity = Some 0xB, calloc_affinity_ok = True\<rparr>
            initial_globals =
           (True, initial_globals\<lparr>num_threads := 2, thread_affinity := Some [1, 2]\<rparr>,
            [Calloc A_thread_affinity])"
    by (simp add: SetThreadAffinity_spare_def popcnt64_def popcnt_step_def Let_def
        spread_affinity.simps word_le_nat_alt r)
  from SetThreadAffinity_plan[of "\<lparr>process_affinity = Some 0xB, calloc_affinity_ok = True\<rparr>"
      "0xB" 1 initial_globals]
  show ?thesis
    by (simp add: c e)
qed

text \<open>
  Claim C2, as amended. When all workers were created and the dispatch loop is left through
  \<open>goto out\<close> (the wait on the ready events failed or timed out, or \<open>SetEvent\<close>
  failed), \<open>ControlThread\<close> goes straight to the cleanup: after the trace of the
  dispatch loop come only the forced termination of every worker thread, the closing of
  its two events and the four \<open>free\<close> calls, and the thread exits with status 1. The
  slots keep what the dispatch loop left in them; there is no grace sleep, no \<open>memset\<close>
  of the slots, no wait for the workers to exit, and every \<open>SetEvent\<close> of the run belongs
  to a dispatch round.
\<close>

theorem ControlThread_dispatch_abort:
  assumes "num_threads g \<noteq> 0" and "thread_affinity g = Some ta" and "all_allocated env"
    and "create_workers env ta (unat (num_threads g)) 0 (fresh_arrays (unat (num_threads g))) =
           (a1, t1, Next)"
    and "dispatch_loop env (num_threads g) a1 1 = (td, t2, Goto_out)"
  shows "\<exists>t. ControlThread env g = (t, Some td, Exit 1) \<and>
           t = allocs @ Printf ''Creating %d threads...\<newline>'' [num_threads g] # t1 @ t2
               @ forced_cleanup env (unat (num_threads g)) \<and>
           Memset_thread_data \<notin> set t \<and>
           (\<forall>d. Sleep d \<notin> set t) \<and>
           (\<forall>n hs w. WaitForMultipleObjects n hs True w \<notin> set t) \<and>
           handoffs_ok (data_ready_a a1) t2"
proof -
  let ?n = "unat (num_threads g)"
  let ?t = "allocs @ Printf ''Creating %d threads...\<newline>'' [num_threads g] # t1 @ t2
               @ forced_cleanup env ?n"
  have run: "control_run env (num_threads g) ta (fresh_arrays ?n) =
               (Printf ''Creating %d threads...\<newline>'' [num_threads g] # t1 @ t2
                @ forced_cleanup env ?n, td, Exit 1)"
    by (simp add: control_run_def assms(4) assms(5)[unfolded One_nat_def]
        out_arrays_created[OF assms(4)])
  have eq: "ControlThread env g = (?t, Some td, Exit 1)"
    by (simp add: ControlThread_allocated[OF assms(1,2,3)] run)
  have s1: "\<forall>x \<in> set t1. setup_action x"
    using create_workers_frame[OF assms(4)] by simp
  note dp = dispatch_loop_props[OF assms(5)]
  have s2: "\<forall>x \<in> set t2. dispatch_action (num_threads g) (thread_ready_a a1) x"
    using dp by simp
  have h: "handoffs_ok (data_ready_a a1) t2"
    using dp by simp
  have m: "Memset_thread_data \<notin> set ?t"
    using s1 s2 forced_cleanup_teardown[of env ?n]
    by (auto simp: allocs_def dest: not_setup_action not_dispatch_action not_teardown_action)
  have sl: "Sleep d \<notin> set ?t" for d
    using s1 s2 forced_cleanup_teardown[of env ?n]
    by (auto simp: allocs_def dest: not_setup_action not_dispatch_action not_teardown_action)
  have j: "WaitForMultipleObjects n hs True w \<notin> set ?t" for n hs w
  proof
    assume "WaitForMultipleObjects n hs True w \<in> set ?t"
    then consider "WaitForMultipleObjects n hs True w \<in> set t1"
      | "WaitForMultipleObjects n hs True w \<in> set t2"
      | "WaitForMultipleObjects n hs True w \<in> set (forced_cleanup env ?n)"
      by (auto simp: allocs_def)
    then show False
    proof cases
      case 1
      with s1 show False by (auto dest: not_setup_action)
    next
      case 2
      with s2 show False by (auto dest: not_dispatch_action)
    next
      case 3
      with forced_cleanup_teardown[of env ?n] show False by (auto dest: not_teardown_action)
    qed
  qed
  from eq m sl j h show ?thesis by blast
qed

theorem ControlThread_dispatch_abort_witness:
  "num_threads one_core_globals \<noteq> 0 \<and>
   thread_affinity one_core_globals = Some [1] \<and>
   all_allocated timeout_env \<and>
   create_workers timeout_env [1] (unat (num_threads one_core_globals)) 0
       (fresh_arrays (unat (num_threads one_core_globals))) =
     (\<lparr>task_thread = [30], data_ready_a = [10], thread_ready_a = [20], thread_data_a = [0]\<rparr>,
      [CreateEvent, CreateEvent, CreateThread 0, SetThreadPriority 30, SetThreadAffinityMask 30 1],
      Next) \<and>
   dispatch_loop timeout_env (num_threads one_core_globals)
       \<lparr>task_thread = [30], data_ready_a = [10], thread_ready_a = [20], thread_data_a = [0]\<rparr> 1 =
     ([1],
      [WaitForMultipleObjects 1 [20] False WAIT_TIME, Store_thread_data 0 1, SetEvent 10,
       WaitForMultipleObjects 1 [20] False WAIT_TIME,
       Printf ''Failed to wait on individual task thread\<newline>'' []],
      Goto_out) \<and>
   (\<exists>t. ControlThread timeout_env one_core_globals = (t, Some [1], Exit 1) \<and>
        Memset_thread_data \<notin> set t \<and>
        TerminateThread 30 1 \<in> set t)"
proof -
  have g: "num_threads one_core_globals = 1" "thread_affinity one_core_globals = Some [1]"
    by (simp_all add: one_core_globals_def)
  have al: "all_allocated timeout_env"
    by (simp add: all_allocated_def timeout_env_def sample_control_env_def)
  have c: "create_workers timeout_env [1] (unat (1 :: dword)) 0 (fresh_arrays (unat (1 :: dword))) =
     (\<lparr>task_thread = [30], data_ready_a = [10], thread_ready_a = [20], thread_data_a = [0]\<rparr>,
      [CreateEvent, CreateEvent, CreateThread 0, SetThreadPriority 30, SetThreadAffinityMask 30 1],
      Next)"
    by (simp add: timeout_env_def fresh_arrays_def eval_simps)
  have d: "dispatch_loop timeout_env 1
       \<lparr>task_thread = [30], data_ready_a = [10], thread_ready_a = [20], thread_data_a = [0]\<rparr> 1 =
     ([1],
      [WaitForMultipleObjects 1 [20] False WAIT_TIME, Store_thread_data 0 1, SetEvent 10,
       WaitForMultipleObjects 1 [20] False WAIT_TIME,
       Printf ''Failed to wait on individual task thread\<newline>'' []],
      Goto_out)"
    by (simp add: timeout_env_def eval_simps)
  have f: "TerminateThread 30 1 \<in> set (forced_cleanup timeout_env (unat (1 :: dword)))"
    by (simp add: forced_cleanup_def timeout_env_def sample_control_env_def)
  from ControlThread_dispatch_abort[of one_core_globals "[1]" timeout_env
      "\<lparr>task_thread = [30], data_ready_a = [10], thread_ready_a = [20], thread_data_a = [0]\<rparr>"
      "[CreateEvent, CreateEvent, CreateThread 0, SetThreadPriority 30, SetThreadAffinityMask 30 1]"
      "[1]"
      "[WaitForMultipleObjects 1 [20] False WAIT_TIME, Store_thread_data 0 1, SetEvent 10,
       WaitForMultipleObjects 1 [20] False WAIT_TIME,
       Printf ''Failed to wait on individual task thread\<newline>'' []]"]
  show ?thesis
    unfolding g using al c d f by auto
qed

text \<open>
  The claim as stated fails: with one worker, a first round that succeeds and a second
  wait that times out, the run ends with the slot still holding the work value 1, without
  the \<open>memset\<close> and without the wait for the worker; the worker is terminated by force.
\<close>

theorem ControlThread_timeout_counterexample:
  "ControlThread timeout_env one_core_globals =
   ([Calloc A_task_thread, Calloc A_data_ready, Calloc A_thread_ready,
           Calloc A_thread_data, Printf ''Creating %d threads...\<newline>'' [1],
           CreateEvent, CreateEvent, CreateThread 0, SetThreadPriority 30,
           SetThreadAffinityMask 30 1,
           WaitForMultipleObjects 1 [20] False 15000, Store_thread_data 0 1, SetEvent 10,
           WaitForMultipleObjects 1 [20] False 15000,
           Printf ''Failed to wait on individual task thread\<newline>'' [],
           TerminateThread 30 1, CloseHandle 10, CloseHandle 20,
           Free A_data_ready, Free A_thread_ready, Free A_task_thread, Free A_thread_data],
          Some [1], Exit 1) \<and>
   Memset_thread_data \<notin> set (fst (ControlThread timeout_env one_core_globals)) \<and>
   WaitForMultipleObjects 1 [30] True WAIT_TIME
     \<notin> set (fst (ControlThread timeout_env one_core_globals))"
  by (simp add: timeout_env_def eval_simps)

text \<open>
  Claim C3 fails on the code. On a machine with one usable core, let the first wait of the
  dispatch loop time out: the control thread exits with status 1 after tearing down, but
  \<open>main_utf8\<close> never reads that status and returns 0.
\<close>

theorem main_utf8_ignores_control_status:
  "main_utf8
     \<lparr>planner_env = \<lparr>process_affinity = Some 1, calloc_affinity_ok = True\<rparr>,
      new_control_thread = 5,
      controller_env = sample_control_env\<lparr>ready_wait := (\<lambda>k. WAIT_TIMEOUT)\<rparr>,
      control_wait = WAIT_OBJECT_0\<rparr> =
   (Returned 0,
    Some ([Calloc A_task_thread, Calloc A_data_ready, Calloc A_thread_ready,
           Calloc A_thread_data, Printf ''Creating %d threads...\<newline>'' [1],
           CreateEvent, CreateEvent, CreateThread 0, SetThreadPriority 30,
           SetThreadAffinityMask 30 1,
           WaitForMultipleObjects 1 [20] False 15000,
           Printf ''Failed to wait on individual task thread\<newline>'' [],
           TerminateThread 30 1, CloseHandle 10, CloseHandle 20,
           Free A_data_ready, Free A_thread_ready, Free A_task_thread, Free A_thread_data],
          Some [0], Exit 1))"
proof -
  have p: "SetThreadAffinity \<lparr>process_affinity = Some 1, calloc_affinity_ok = True\<rparr>
             initial_globals =
           (True, initial_globals\<lparr>num_threads := 1, thread_affinity := Some [1]\<rparr>,
            [Calloc A_thread_affinity])"
    by (simp add: SetThreadAffinity_def SetThreadAffinity_spare_def SPARE_THREADS_def
        popcnt64_def popcnt_step_def Let_def spread_affinity.simps)
  show ?thesis
    by (simp add: main_utf8_def p[unfolded initial_globals_def] eval_simps)
qed

text \<open>
  Claim C4, as amended. When the affinity word has at most as many set bits as the spare
  count, \<open>SetThreadAffinity\<close> returns \<open>FALSE\<close> without allocating or printing
  anything; the affinity-mask pointer and the other globals keep their values, and the
  worker count is left holding the number of usable cores \<open>c\<close>.
\<close>

theorem SetThreadAffinity_insufficient:
  assumes "process_affinity env = Some a" and "usable_cores a \<le> unat spare"
  shows "SetThreadAffinity_spare spare env g =
           (False, g\<lparr>num_threads := of_nat (usable_cores a)\<rparr>, [])"
proof -
  have le: "(ucast (popcnt64 a) :: dword) \<le> spare"
    using assms(2) by (simp add: word_le_nat_alt unat_num_threads_popcnt64)
  have "(ucast (popcnt64 a) :: dword) = of_nat (usable_cores a)"
    unfolding unat_num_threads_popcnt64[of a, symmetric] by simp
  then show ?thesis
    using assms(1) le by (simp add: SetThreadAffinity_spare_def Let_def)
qed

theorem SetThreadAffinity_insufficient_witness:
  "process_affinity \<lparr>process_affinity = Some 3, calloc_affinity_ok = True\<rparr> = Some 3 \<and>
   usable_cores 3 \<le> unat (2 :: dword) \<and>
   SetThreadAffinity_spare 2 \<lparr>process_affinity = Some 3, calloc_affinity_ok = True\<rparr>
     initial_globals = (False, initial_globals\<lparr>num_threads := 2\<rparr>, [])"
proof -
  have c: "usable_cores 3 = 2"
    by (simp add: usable_cores_popcnt64 popcnt64_def popcnt_step_def)
  from SetThreadAffinity_insufficient[of "\<lparr>process_affinity = Some 3, calloc_affinity_ok = True\<rparr>"
      3 2 initial_globals]
  show ?thesis by (simp add: c)
qed

text \<open>
  The claim as stated fails: with two usable cores and two spare threads the call fails
  and leaves the worker count at 2, although it was 0 before the call.
\<close>

theorem SetThreadAffinity_insufficient_counterexample:
  "usable_cores 3 \<le> unat (2 :: dword) \<and>
   fst (SetThreadAffinity_spare 2 \<lparr>process_affinity = Some 3, calloc_affinity_ok = True\<rparr>
     initial_globals) = False \<and>
   num_threads (fst (snd (SetThreadAffinity_spare 2
     \<lparr>process_affinity = Some 3, calloc_affinity_ok = True\<rparr> initial_globals))) = 2 \<and>
   num_threads initial_globals = 0"
proof -
  have c: "usable_cores 3 = 2"
    by (simp add: usable_cores_popcnt64 popcnt64_def popcnt_step_def)
  have "SetThreadAffinity_spare 2 \<lparr>process_affinity = Some 3, calloc_affinity_ok = True\<rparr>
     initial_globals = (False, initial_globals\<lparr>num_threads := 2\<rparr>, [])"
    by (simp add: SetThreadAffinity_spare_def popcnt64_def popcnt_step_def Let_def)
  then show ?thesis
    by (simp add: c initial_globals_def)
qed

text \<open>
  Claim C5. A worker whose arrays are in place, whose earlier passes all received work,
  and which now reads the sentinel 0 from its slot after a successful wait, prints the
  line \<open>Thread #.. exiting\<close> and returns 0. The read of the sentinel and that one line
  are the last things it does: the trace ends there whatever the environment would answer
  afterwards, so the slot and both events are not touched again.
\<close>

theorem ParallelTaskThread_sentinel:
  assumes "array_read (thread_ready g) (unat i) = Inr tr"
    and "array_read (data_ready g) (unat i) = Inr dr"
    and "array_read (thread_data g) (unat i) = Inr v"
    and "list_all processing_round before"
    and "sentinel_round e"
  shows "\<exists>t. \<forall>after. ParallelTaskThread g i (before @ e # after) =
              (t @ [SetEvent tr, WaitForSingleObject dr WAIT_TIME, Load_thread_data (unat i),
                    Printf ''Thread #%02d exiting\<newline>'' [i]],
               Exit 0)"
  using assms(4)
proof (induction before)
  case Nil
  show ?case
    using worker_body_sentinel[OF assms(1,2,3,5)] by simp
next
  case (Cons b before)
  then obtain t where t: "\<And>after. ParallelTaskThread g i (before @ e # after) =
              (t @ [SetEvent tr, WaitForSingleObject dr WAIT_TIME, Load_thread_data (unat i),
                    Printf ''Thread #%02d exiting\<newline>'' [i]],
               Exit 0)"
    by auto
  from Cons.prems have "snd (worker_body g i b) = None"
    using worker_body_processing[OF assms(1,2,3)] by simp
  then obtain tb where "worker_body g i b = (tb, None)"
    by (cases "worker_body g i b") simp
  then show ?case
    using t by (intro exI[of _ "tb @ t"]) simp
qed

theorem ParallelTaskThread_sentinel_witness:
  "array_read (thread_ready (initial_globals\<lparr>thread_ready := Some [20, 21]\<rparr>)) (unat (1 :: dword))
     = Inr 21 \<and>
   list_all processing_round
     [\<lparr>ready_ok = True, wait_result = 0, slot_at_test = 7, slot_at_print = 7,
       cancel_poll = (\<lambda>j. False)\<rparr>] \<and>
   sentinel_round
     \<lparr>ready_ok = True, wait_result = 0, slot_at_test = 0, slot_at_print = 0,
       cancel_poll = (\<lambda>j. False)\<rparr> \<and>
   (\<exists>t. \<forall>after.
      ParallelTaskThread
        (initial_globals\<lparr>data_ready := Some [10, 11], thread_ready := Some [20, 21],
           thread_data := Some [0, 0]\<rparr>) 1
        ([\<lparr>ready_ok = True, wait_result = 0, slot_at_test = 7, slot_at_print = 7,
            cancel_poll = (\<lambda>j. False)\<rparr>]
         @ \<lparr>ready_ok = True, wait_result = 0, slot_at_test = 0, slot_at_print = 0,
             cancel_poll = (\<lambda>j. False)\<rparr> # after) =
      (t @ [SetEvent 21, WaitForSingleObject 11 WAIT_TIME, Load_thread_data (unat (1 :: dword)),
            Printf ''Thread #%02d exiting\<newline>'' [1]],
       Exit 0))"
  using ParallelTaskThread_sentinel[of
      "initial_globals\<lparr>data_ready := Some [10, 11], thread_ready := Some [20, 21],
           thread_data := Some [0, 0]\<rparr>" 1 21 11 0
      "[\<lparr>ready_ok = True, wait_result = 0, slot_at_test = 7, slot_at_print = 7,
            cancel_poll = (\<lambda>j. False)\<rparr>]"
      "\<lparr>ready_ok = True, wait_result = 0, slot_at_test = 0, slot_at_print = 0,
             cancel_poll = (\<lambda>j. False)\<rparr>"]
  by (simp add: array_read_def initial_globals_def processing_round_def sentinel_round_def
      WAIT_OBJECT_0_def)

text \<open>
  Claim C6. The dispatch loop, started at iteration 1 as \<open>ControlThread\<close> starts it, makes
  at most \<open>MAX_ITERATIONS\<close> waits on the ready events, one per round. If the loop test
  of iteration \<open>k\<close> reads \<open>cancel_requested\<close> as set, fewer than \<open>k\<close> rounds are
  started. Every store into a slot is immediately followed by the \<open>SetEvent\<close> on the
  data-ready event of the same worker and the loop makes no other \<open>SetEvent\<close>; the
  store of round \<open>j\<close> goes to the slot of the worker the wait of round \<open>j\<close> returned.
\<close>

theorem dispatch_loop_rounds:
  assumes "dispatch_loop env nt a 1 = (td, t, f)"
  shows "length (filter is_ready_wait t) \<le> MAX_ITERATIONS \<and>
         (\<forall>k. 1 \<le> k \<and> cancel_at env k \<longrightarrow> length (filter is_ready_wait t) < k) \<and>
         handoffs_ok (data_ready_a a) t \<and>
         (\<exists>m \<le> MAX_ITERATIONS.
            stores t = map (\<lambda>j. (unat (ready_wait env j), of_nat j)) [1..<Suc m])"
proof -
  note p = dispatch_loop_props[OF assms]
  have 1: "length (filter is_ready_wait t) \<le> MAX_ITERATIONS"
    using p[THEN conjunct1] by simp
  have 2: "length (filter is_ready_wait t) < k" if "1 \<le> k" "cancel_at env k" for k
  proof -
    from p[THEN conjunct2, THEN conjunct1] that
    have "length (filter is_ready_wait t) \<le> k - 1" by blast
    with that(1) show ?thesis by simp
  qed
  have 3: "handoffs_ok (data_ready_a a) t"
    using p by blast
  from p obtain m where m: "stores t = map (\<lambda>j. (unat (ready_wait env j), of_nat j)) [1..<1 + m]"
    "m = 0 \<or> 1 + m \<le> Suc MAX_ITERATIONS" by blast
  then have 4: "\<exists>m \<le> MAX_ITERATIONS.
            stores t = map (\<lambda>j. (unat (ready_wait env j), of_nat j)) [1..<Suc m]"
    by (intro exI[of _ m]) auto
  from 1 2 3 4 show ?thesis by blast
qed

theorem dispatch_loop_rounds_witness:
  "dispatch_loop (sample_control_env\<lparr>cancel_at := (\<lambda>k. 3 \<le> k)\<rparr>) 1
       \<lparr>task_thread = [30], data_ready_a = [10], thread_ready_a = [20], thread_data_a = [0]\<rparr> 1 =
     ([2],
      [WaitForMultipleObjects 1 [20] False WAIT_TIME, Store_thread_data 0 1, SetEvent 10,
       WaitForMultipleObjects 1 [20] False WAIT_TIME, Store_thread_data 0 2, SetEvent 10],
      Next) \<and>
   length (filter is_ready_wait
      [WaitForMultipleObjects 1 [20] False WAIT_TIME, Store_thread_data 0 1, SetEvent 10,
       WaitForMultipleObjects 1 [20] False WAIT_TIME, Store_thread_data 0 2, SetEvent 10]) < 3 \<and>
   cancel_at (sample_control_env\<lparr>cancel_at := (\<lambda>k. 3 \<le> k)\<rparr>) 3 \<and>
   handoffs_ok [10]
      [WaitForMultipleObjects 1 [20] False WAIT_TIME, Store_thread_data 0 1, SetEvent 10,
       WaitForMultipleObjects 1 [20] False WAIT_TIME, Store_thread_data 0 2, SetEvent 10]"
proof -
  have d: "dispatch_loop (sample_control_env\<lparr>cancel_at := (\<lambda>k. 3 \<le> k)\<rparr>) 1
       \<lparr>task_thread = [30], data_ready_a = [10], thread_ready_a = [20], thread_data_a = [0]\<rparr> 1 =
     ([2],
      [WaitForMultipleObjects 1 [20] False WAIT_TIME, Store_thread_data 0 1, SetEvent 10,
       WaitForMultipleObjects 1 [20] False WAIT_TIME, Store_thread_data 0 2, SetEvent 10],
      Next)"
    by (simp add: eval_simps)
  have c: "cancel_at (sample_control_env\<lparr>cancel_at := (\<lambda>k. 3 \<le> k)\<rparr>) 3"
    by simp
  from dispatch_loop_rounds[OF d] c d show ?thesis
    by simp
qed

text \<open>
  Claim C7 fails on the code. When the allocation of \<open>task_thread\<close> fails, the jump to
  \<open>out\<close> enters the cleanup loop with \<open>num_threads\<close> at least 1, and its first
  statement reads \<open>task_thread[0]\<close> through the \<open>NULL\<close> pointer.
\<close>

theorem ControlThread_alloc_failure_null_dereference:
  "ControlThread (sample_control_env\<lparr>calloc_task_thread_ok := False\<rparr>) one_core_globals =
     ([Calloc A_task_thread, Calloc A_data_ready, Calloc A_thread_ready, Calloc A_thread_data,
       Fprintf_stderr ''Alloc error.\<newline>''],
      Some [0], Null_dereference)"
  by (simp add: eval_simps)

text \<open>
  Claim C8. In every trace of a worker, complete or not, each wait is the
  \<open>WaitForSingleObject\<close> on the worker's own data-ready event with timeout \<open>WAIT_TIME\<close>,
  and each sleep lasts 100 ms. In every trace of the Control Loop each wait is the wait for
  any of the ready events or the wait for all worker threads, both with timeout
  \<open>WAIT_TIME\<close>, and each sleep lasts 250 ms. \<open>WAIT_TIME\<close> is 15000 ms and differs from
  \<open>INFINITE\<close>.
\<close>

theorem bounded_waits:
  "(\<forall>x \<in> set (fst (ParallelTaskThread g i es)).
      (is_wait x \<longrightarrow>
         (\<exists>dr. array_read (data_ready g) (unat i) = Inr dr \<and>
               x = WaitForSingleObject dr WAIT_TIME)) \<and>
      (\<forall>d. x = Sleep d \<longrightarrow> d = 100)) \<and>
   (\<forall>x \<in> set (fst (ControlThread env g')).
      (is_wait x \<longrightarrow>
         x = WaitForMultipleObjects (num_threads g')
               (map (new_thread_ready env) [0..<unat (num_threads g')]) False WAIT_TIME \<or>
         x = WaitForMultipleObjects (num_threads g')
               (map (new_task_thread env) [0..<unat (num_threads g')]) True WAIT_TIME) \<and>
      (\<forall>d. x = Sleep d \<longrightarrow> d = 250)) \<and>
   WAIT_TIME \<noteq> INFINITE \<and> unat WAIT_TIME = 15000"
proof (intro conjI ballI)
  fix x assume "x \<in> set (fst (ParallelTaskThread g i es))"
  then show "is_wait x \<longrightarrow>
         (\<exists>dr. array_read (data_ready g) (unat i) = Inr dr \<and>
               x = WaitForSingleObject dr WAIT_TIME)"
    and "\<forall>d. x = Sleep d \<longrightarrow> d = 100"
    using ParallelTaskThread_waits[of g i es "fst (ParallelTaskThread g i es)"
        "snd (ParallelTaskThread g i es)" x]
    by simp_all
next
  fix x assume "x \<in> set (fst (ControlThread env g'))"
  then have "control_blocking_ok env (num_threads g') x"
    using ControlThread_blocking[of env g' "fst (ControlThread env g')"
        "fst (snd (ControlThread env g'))" "snd (snd (ControlThread env g'))"]
    by simp
  then show "is_wait x \<longrightarrow>
         x = WaitForMultipleObjects (num_threads g')
               (map (new_thread_ready env) [0..<unat (num_threads g')]) False WAIT_TIME \<or>
         x = WaitForMultipleObjects (num_threads g')
               (map (new_task_thread env) [0..<unat (num_threads g')]) True WAIT_TIME"
    and "\<forall>d. x = Sleep d \<longrightarrow> d = 250"
    by (simp_all add: control_blocking_ok_def)
next
  show "WAIT_TIME \<noteq> INFINITE" by (simp add: WAIT_TIME_def INFINITE_def)
  show "unat WAIT_TIME = 15000" by (simp add: WAIT_TIME_def)
qed


theorem bounded_waits_witness:
  "WaitForSingleObject 11 WAIT_TIME \<in>
     set (fst (ParallelTaskThread
       (initial_globals\<lparr>data_ready := Some [10, 11], thread_ready := Some [20, 21],
          thread_data := Some [0, 0]\<rparr>) 1
       [\<lparr>ready_ok = True, wait_result = 0, slot_at_test = 0, slot_at_print = 0,
          cancel_poll = (\<lambda>j. False)\<rparr>])) \<and>
   (\<exists>dr. array_read (data_ready
       (initial_globals\<lparr>data_ready := Some [10, 11], thread_ready := Some [20, 21],
          thread_data := Some [0, 0]\<rparr>)) (unat (1 :: dword)) = Inr dr \<and>
      WaitForSingleObject 11 WAIT_TIME = WaitForSingleObject dr WAIT_TIME) \<and>
   WaitForMultipleObjects 1 [20] False WAIT_TIME \<in>
     set (fst (ControlThread timeout_env one_core_globals)) \<and>
   (WaitForMultipleObjects 1 [20] False WAIT_TIME =
      WaitForMultipleObjects (num_threads one_core_globals)
        (map (new_thread_ready timeout_env) [0..<unat (num_threads one_core_globals)])
        False WAIT_TIME \<or>
    WaitForMultipleObjects 1 [20] False WAIT_TIME =
      WaitForMultipleObjects (num_threads one_core_globals)
        (map (new_task_thread timeout_env) [0..<unat (num_threads one_core_globals)])
        True WAIT_TIME)"
proof -
  let ?g = "initial_globals\<lparr>data_ready := Some [10, 11], thread_ready := Some [20, 21],
          thread_data := Some [0, 0]\<rparr>"
  let ?es = "[\<lparr>ready_ok = True, wait_result = 0, slot_at_test = 0, slot_at_print = 0,
          cancel_poll = (\<lambda>j. False)\<rparr>]"
  have w: "WaitForSingleObject 11 WAIT_TIME \<in> set (fst (ParallelTaskThread ?g 1 ?es))"
    by (simp add: worker_body_def array_read_def initial_globals_def WAIT_OBJECT_0_def)
  have c: "WaitForMultipleObjects 1 [20] False WAIT_TIME \<in>
     set (fst (ControlThread timeout_env one_core_globals))"
    by (simp add: timeout_env_def eval_simps)
  note b = bounded_waits[of ?g 1 ?es timeout_env one_core_globals]
  have 1: "\<exists>dr. array_read (data_ready ?g) (unat (1 :: dword)) = Inr dr \<and>
      WaitForSingleObject 11 WAIT_TIME = WaitForSingleObject dr WAIT_TIME"
    by (rule b[THEN conjunct1, THEN bspec, OF w, THEN conjunct1, THEN mp]) simp
  have 2: "WaitForMultipleObjects 1 [20] False WAIT_TIME =
      WaitForMultipleObjects (num_threads one_core_globals)
        (map (new_thread_ready timeout_env) [0..<unat (num_threads one_core_globals)])
        False WAIT_TIME \<or>
    WaitForMultipleObjects 1 [20] False WAIT_TIME =
      WaitForMultipleObjects (num_threads one_core_globals)
        (map (new_task_thread timeout_env) [0..<unat (num_threads one_core_globals)])
        True WAIT_TIME"
    by (rule b[THEN conjunct2, THEN conjunct1, THEN bspec, OF c, THEN conjunct1, THEN mp]) simp
  from w c 1 2 show ?thesis by blast
qed

text \<open>
  Claim C10. In every run of \<open>ControlThread\<close> the single stores into work-item slots
  are, in order, the stores of the round numbers 1, 2, ..., m for some m up to
  \<open>MAX_ITERATIONS\<close>, each into the slot of the worker that the wait of that round
  returned. Every stored value is therefore non-zero and lies between 1 and
  \<open>MAX_ITERATIONS\<close>. The only other write to the slots is the \<open>memset\<close> to zero of the
  shutdown broadcast, and no store follows it.
\<close>

theorem ControlThread_work_values:
  "(\<exists>m \<le> MAX_ITERATIONS.
      stores (fst (ControlThread env g)) =
        map (\<lambda>j. (unat (ready_wait env j), of_nat j)) [1..<Suc m]) \<and>
   (\<forall>v \<in> set (map snd (stores (fst (ControlThread env g)))).
      v \<noteq> 0 \<and> 1 \<le> unat v \<and> unat v \<le> MAX_ITERATIONS) \<and>
   stores (dropWhile (\<lambda>x. x \<noteq> Memset_thread_data) (fst (ControlThread env g))) = []"
proof -
  obtain t slots r where c: "ControlThread env g = (t, slots, r)"
    by (cases "ControlThread env g") auto
  from ControlThread_stores[OF c] obtain m where m: "m \<le> MAX_ITERATIONS"
    "stores t = map (\<lambda>j. (unat (ready_wait env j), of_nat j)) [1..<Suc m]"
    by blast
  have v: "v \<noteq> 0 \<and> 1 \<le> unat v \<and> unat v \<le> MAX_ITERATIONS" if "v \<in> set (map snd (stores t))" for v
  proof -
    from that m(2) obtain j where j: "1 \<le> j" "j < Suc m" "v = of_nat j"
      by auto
    with m(1) have "j \<le> MAX_ITERATIONS" by simp
    from round_number_word[OF j(1) this] j(3) show ?thesis by simp
  qed
  from m v ControlThread_after_memset[OF c] show ?thesis
    by (auto simp: c)
qed

theorem ControlThread_work_values_witness:
  "stores (fst (ControlThread (sample_control_env\<lparr>cancel_at := (\<lambda>k. 3 \<le> k)\<rparr>) one_core_globals)) =
     [(0, 1), (0, 2)] \<and>
   (2 :: dword) \<in> set (map snd (stores (fst (ControlThread
       (sample_control_env\<lparr>cancel_at := (\<lambda>k. 3 \<le> k)\<rparr>) one_core_globals)))) \<and>
   (2 :: dword) \<noteq> 0 \<and> 1 \<le> unat (2 :: dword) \<and> unat (2 :: dword) \<le> MAX_ITERATIONS"
proof -
  let ?env = "sample_control_env\<lparr>cancel_at := (\<lambda>k. 3 \<le> k)\<rparr>"
  have s: "stores (fst (ControlThread ?env one_core_globals)) = [(0, 1), (0, 2)]"
    by (simp add: eval_simps)
  then have i: "(2 :: dword) \<in> set (map snd (stores (fst (ControlThread ?env one_core_globals))))"
    by simp
  note w = ControlThread_work_values[of ?env one_core_globals]
  from w[THEN conjunct2, THEN conjunct1, THEN bspec, OF i] s i show ?thesis
    by simp
qed

end
